theory Spec2Isabelle
  imports Complex_Main
begin

section \<open>Exceptions\<close>

text \<open>
  \<^verbatim>\<open>solve_arbitrage\<close> has no \<^verbatim>\<open>try\<close>: an exception raised by Python, numpy or cvxpy
  while the model is built leaves the function at once. An error value records the
  exception class and the statement of \<^verbatim>\<open>core.py\<close> that raised it.
\<close>

datatype pyexc = IndexError | ValueError | TypeError | OverflowError

datatype stage =
    Mapping       \<comment> \<open>lines 10-16, the local-global matrices\<close>
  | Variables     \<comment> \<open>lines 19-20, \<^verbatim>\<open>cp.Variable\<close>\<close>
  | Objective     \<comment> \<open>line 24\<close>
  | PostTrade     \<comment> \<open>line 27, \<^verbatim>\<open>new_reserves\<close>\<close>
  | Constraints   \<comment> \<open>lines 30-38, the list \<^verbatim>\<open>cons\<close>\<close>

type_synonym error = "pyexc \<times> stage"

text \<open>Statement after statement: the second runs on the value of the first, unless it raised.\<close>

definition and_then :: "error + 'a \<Rightarrow> ('a \<Rightarrow> error + 'b) \<Rightarrow> error + 'b" where
  "and_then m f = (case m of Inl e \<Rightarrow> Inl e | Inr x \<Rightarrow> f x)"

section \<open>Index mapper (lines 9-16)\<close>

text \<open>
  A two-dimensional numpy array: its shape and its rows. The shape is kept beside the
  rows because an array of shape \<open>(0, k)\<close> has no row to read \<open>k\<close> from.
\<close>

record matrix =
  nrows :: nat
  ncols :: nat
  cells :: "real list list"

definition zeros :: "nat \<Rightarrow> nat \<Rightarrow> matrix" where
  "zeros n k = \<lparr>nrows = n, ncols = k, cells = replicate n (replicate k 0)\<rparr>"

text \<open>
  The row that numpy's \<^verbatim>\<open>A_i[idx, i]\<close> addresses in an array of \<open>n\<close> rows, for a Python
  integer \<open>idx\<close> of any size: an index of \<open>0 .. n-1\<close> is the row itself and an index of
  \<open>-n .. -1\<close> counts from the end. Any other index raises: \<^verbatim>\<open>OverflowError\<close> when it is
  one of \<open>2^63 .. 2^64 - 1\<close> (it fits an unsigned 64-bit integer but not the signed index
  type), \<^verbatim>\<open>IndexError\<close> otherwise. An array has fewer than \<open>2^63\<close> rows, so the two
  first cases never meet the third.
\<close>

definition np_row :: "nat \<Rightarrow> int \<Rightarrow> pyexc + nat" where
  "np_row n idx =
     (if 0 \<le> idx \<and> idx < int n then Inr (nat idx)
      else if - int n \<le> idx \<and> idx < 0 then Inr (nat (int n + idx))
      else if 9223372036854775808 \<le> idx \<and> idx < 18446744073709551616 then Inl OverflowError
      else Inl IndexError)"

definition set_cell :: "matrix \<Rightarrow> nat \<Rightarrow> nat \<Rightarrow> real \<Rightarrow> matrix" where
  "set_cell M r c v = M\<lparr>cells := (cells M)[r := (cells M ! r)[c := v]]\<rparr>"

text \<open>
  The inner loop \<^verbatim>\<open>for i, idx in enumerate(l): A_i[idx, i] = 1\<close>, from column \<open>i\<close> on.
\<close>

fun fill :: "matrix \<Rightarrow> nat \<Rightarrow> int list \<Rightarrow> error + matrix" where
  "fill M i [] = Inr M"
| "fill M i (idx # rest) =
     (case np_row (nrows M) idx of
        Inl e \<Rightarrow> Inl (e, Mapping)
      | Inr r \<Rightarrow> fill (set_cell M r i 1) (Suc i) rest)"

definition incidence :: "nat \<Rightarrow> int list \<Rightarrow> error + matrix" where
  "incidence n l = fill (zeros n (length l)) 0 l"

text \<open>The outer loop \<^verbatim>\<open>for l in local_indices: ...; A.append(A_i)\<close>.\<close>

fun build_A :: "nat \<Rightarrow> int list list \<Rightarrow> error + matrix list" where
  "build_A n [] = Inr []"
| "build_A n (l # ls) =
     (case incidence n l of
        Inl e \<Rightarrow> Inl e
      | Inr A_i \<Rightarrow> (case build_A n ls of Inl e \<Rightarrow> Inl e | Inr As \<Rightarrow> Inr (A_i # As)))"

section \<open>Symbolic expressions (what cvxpy builds)\<close>

text \<open>
  The decision variables are identified by the list they are stored in and their position
  there: \<open>Delta l\<close> is \<^verbatim>\<open>deltas[l]\<close> (the deposit into pool \<open>l\<close>), \<open>Lambda l\<close> is
  \<^verbatim>\<open>lambdas[l]\<close> (the withdrawal from pool \<open>l\<close>).
\<close>

datatype var = Delta nat | Lambda nat

text \<open>\<^verbatim>\<open>cp.Variable(k, nonneg=True)\<close>: a vector of \<open>k\<close> unknowns, each asked to be \<open>\<ge> 0\<close>.\<close>

datatype variable = Variable (var_id: var) (var_len: nat)

text \<open>
  The expressions \<^verbatim>\<open>solve_arbitrage\<close> builds. A value of an expression is a list of
  reals; a scalar is a list of one element.
\<close>

datatype expr =
    Num real                        \<comment> \<open>a Python number\<close>
  | Vec "real list"                 \<comment> \<open>a one-dimensional array of numbers\<close>
  | Var variable                    \<comment> \<open>a decision variable\<close>
  | Add expr expr                   \<comment> \<open>\<^verbatim>\<open>a + b\<close>\<close>
  | Sub expr expr                   \<comment> \<open>\<^verbatim>\<open>a - b\<close>\<close>
  | Scale real expr                 \<comment> \<open>\<^verbatim>\<open>gamma * e\<close>, \<open>gamma\<close> a number\<close>
  | MatMul matrix expr              \<comment> \<open>\<^verbatim>\<open>A_i @ e\<close>\<close>
  | Dot "real list" expr            \<comment> \<open>\<^verbatim>\<open>market_value @ e\<close>\<close>
  | GeoMean expr "nat list option"  \<comment> \<open>\<^verbatim>\<open>cp.geo_mean(e, p)\<close>; \<open>None\<close> when \<open>p\<close> is not given\<close>
  | Sum expr                        \<comment> \<open>\<^verbatim>\<open>cp.sum(e)\<close>\<close>

datatype constr = GE expr expr      \<comment> \<open>\<^verbatim>\<open>a >= b\<close>\<close>

datatype objective = Maximize expr

section \<open>Trade variables (lines 19-20)\<close>

text \<open>
  \<^verbatim>\<open>[cp.Variable(len(l), nonneg=True) for l in local_indices]\<close>, with \<open>mk\<close> the list the
  variables go to and \<open>j\<close> the position of the first one. cvxpy refuses a dimension that is
  not positive (\<^verbatim>\<open>ValueError: Invalid dimensions\<close>).
\<close>

fun variables :: "(nat \<Rightarrow> var) \<Rightarrow> nat \<Rightarrow> int list list \<Rightarrow> error + variable list" where
  "variables mk j [] = Inr []"
| "variables mk j (l # ls) =
     (if length l = 0 then Inl (ValueError, Variables)
      else (case variables mk (Suc j) ls of
              Inl e \<Rightarrow> Inl e
            | Inr vs \<Rightarrow> Inr (Variable (mk j) (length l) # vs)))"

section \<open>Extraction vector and objective (lines 21-24)\<close>

text \<open>
  \<^verbatim>\<open>[A_i @ (L - D) for A_i, D, L in zip(A, deltas, lambdas)]\<close>: \<^verbatim>\<open>zip\<close> stops at the
  shortest of its lists.
\<close>

fun psi_terms :: "matrix list \<Rightarrow> variable list \<Rightarrow> variable list \<Rightarrow> expr list" where
  "psi_terms (A_i # As) (D # Ds) (L # Ls) =
     MatMul A_i (Sub (Var L) (Var D)) # psi_terms As Ds Ls"
| "psi_terms _ _ _ = []"

text \<open>
  \<^verbatim>\<open>cp.sum\<close> of a Python list is Python's own \<^verbatim>\<open>sum\<close>: it starts from the number \<open>0\<close>
  and adds the elements from left to right. Of an empty list it is the number \<open>0\<close>.
\<close>

definition cp_sum_list :: "expr list \<Rightarrow> expr" where
  "cp_sum_list ts = foldl Add (Num 0) ts"

text \<open>
  \<^verbatim>\<open>cp.Maximize(market_value @ psi)\<close>, with \<^verbatim>\<open>market_value\<close> a Python list as in the
  test. When there is no pool, \<open>psi\<close> is the Python number \<open>0\<close>, and a list has no
  \<^verbatim>\<open>@\<close> with a number (\<^verbatim>\<open>TypeError\<close>; a numpy array in place of the list would raise
  \<^verbatim>\<open>ValueError\<close> there). Otherwise \<open>psi\<close> is a vector of length \<open>n\<close>, and cvxpy refuses
  a \<^verbatim>\<open>market_value\<close> of another length (\<^verbatim>\<open>ValueError\<close>).
\<close>

definition build_objective :: "nat \<Rightarrow> real list \<Rightarrow> expr \<Rightarrow> error + objective" where
  "build_objective n market_value psi =
     (case psi of
        Num c \<Rightarrow> Inl (TypeError, Objective)
      | _ \<Rightarrow> if length market_value \<noteq> n then Inl (ValueError, Objective)
             else Inr (Maximize (Dot market_value psi)))"

section \<open>Post-trade reserves (line 27)\<close>

text \<open>
  \<^verbatim>\<open>R + gamma_i * D - L\<close> for one pool, written as an expression and then with the checks
  cvxpy makes when it builds it. \<open>R\<close> is an array of \<open>length R\<close> numbers and \<open>D\<close>, \<open>L\<close> are
  the pool's variables, of the same length. cvxpy refuses an empty constant, and refuses
  to add two vectors of different lengths unless one of them has a single entry, which it
  then broadcasts (\<^verbatim>\<open>ValueError\<close> in both cases). The fee retention is not looked at.
\<close>

definition post_trade :: "real list \<Rightarrow> real \<Rightarrow> variable \<Rightarrow> variable \<Rightarrow> expr" where
  "post_trade R gamma_i D L = Sub (Add (Vec R) (Scale gamma_i (Var D))) (Var L)"

definition new_reserve :: "real list \<Rightarrow> real \<Rightarrow> variable \<Rightarrow> variable \<Rightarrow> error + expr" where
  "new_reserve R gamma_i D L =
     (if length R = 0 then Inl (ValueError, PostTrade)
      else if length R \<noteq> var_len D \<and> length R \<noteq> 1 \<and> var_len D \<noteq> 1
        then Inl (ValueError, PostTrade)
      else Inr (post_trade R gamma_i D L))"

text \<open>
  \<^verbatim>\<open>[... for R, gamma_i, D, L in zip(reserves, fees, deltas, lambdas)]\<close>: again
  \<^verbatim>\<open>zip\<close> stops at the shortest list, and the first pool that fails raises.
\<close>

fun build_new_reserves ::
  "real list list \<Rightarrow> real list \<Rightarrow> variable list \<Rightarrow> variable list \<Rightarrow> error + expr list" where
  "build_new_reserves (R # Rs) (g # gs) (D # Ds) (L # Ls) =
     (case new_reserve R g D L of
        Inl e \<Rightarrow> Inl e
      | Inr e \<Rightarrow> (case build_new_reserves Rs gs Ds Ls of
                   Inl err \<Rightarrow> Inl err
                 | Inr es \<Rightarrow> Inr (e # es)))"
| "build_new_reserves _ _ _ _ = Inr []"

section \<open>Constraints (lines 30-38)\<close>

text \<open>The number of entries of a vector expression built above.\<close>

fun dim :: "expr \<Rightarrow> nat" where
  "dim (Num c) = 1"
| "dim (Vec v) = length v"
| "dim (Var v) = var_len v"
| "dim (Add a b) = max (dim a) (dim b)"
| "dim (Sub a b) = max (dim a) (dim b)"
| "dim (Scale c e) = dim e"
| "dim (MatMul M e) = nrows M"
| "dim (Dot v e) = 1"
| "dim (GeoMean e p) = 1"
| "dim (Sum e) = 1"

text \<open>
  \<^verbatim>\<open>xs[i]\<close> for a literal index \<open>i \<ge> 0\<close>: \<^verbatim>\<open>IndexError\<close> past the end of the list.
\<close>

definition item :: "'a list \<Rightarrow> nat \<Rightarrow> error + 'a" where
  "item xs i = (if i < length xs then Inr (xs ! i) else Inl (IndexError, Constraints))"

text \<open>
  \<^verbatim>\<open>cp.geo_mean(x, p=np.array([4, 3, 2, 1]))\<close>: cvxpy refuses weights whose number
  differs from the number of entries of \<open>x\<close> (\<^verbatim>\<open>ValueError\<close>).
\<close>

definition geo_mean_p :: "expr \<Rightarrow> nat list \<Rightarrow> error + expr" where
  "geo_mean_p x p =
     (if length p \<noteq> dim x then Inl (ValueError, Constraints) else Inr (GeoMean x (Some p)))"

text \<open>
  The list \<^verbatim>\<open>cons\<close>. Python evaluates its elements in order, and in each comparison the
  left operand first, so the first thing to fail is always \<^verbatim>\<open>new_reserves[k]\<close>:
  \<^verbatim>\<open>new_reserves\<close> is never longer than \<^verbatim>\<open>reserves\<close>.
\<close>

definition build_constraints ::
  "expr list \<Rightarrow> real list list \<Rightarrow> expr \<Rightarrow> error + constr list" where
  "build_constraints new_reserves reserves psi =
     and_then (item new_reserves 0) (\<lambda>nr0.
     and_then (geo_mean_p nr0 [4, 3, 2, 1]) (\<lambda>g0.
     and_then (item reserves 0) (\<lambda>R0.
     and_then (item new_reserves 1) (\<lambda>nr1.
     and_then (item reserves 1) (\<lambda>R1.
     and_then (item new_reserves 2) (\<lambda>nr2.
     and_then (item reserves 2) (\<lambda>R2.
     and_then (item new_reserves 3) (\<lambda>nr3.
     and_then (item reserves 3) (\<lambda>R3.
     and_then (item new_reserves 4) (\<lambda>nr4.
     and_then (item reserves 4) (\<lambda>R4.
     Inr [ GE g0 (GeoMean (Vec R0) None),
           GE (GeoMean nr1 None) (GeoMean (Vec R1) None),
           GE (GeoMean nr2 None) (GeoMean (Vec R2) None),
           GE (GeoMean nr3 None) (GeoMean (Vec R3) None),
           GE (Sum nr4) (Sum (Vec R4)),
           GE nr4 (Num 0),
           GE psi (Num 0) ])))))))))))"

section \<open>The entry point\<close>

text \<open>
  The problem handed to the solver, and what \<^verbatim>\<open>solve_arbitrage\<close> returns. The solver
  is outside the repository: \<open>solve\<close> stands for \<^verbatim>\<open>prob.solve()\<close> and \<open>'s\<close> for
  whatever it leaves in \<^verbatim>\<open>prob\<close> (status, values of the variables). It is called last,
  on the assembled problem, so a result \<open>Inl e\<close> is a failure before the solver is called.
  What the solver itself does, an exception of its own included, is not modelled.
\<close>

record 's problem =
  prob_objective :: objective
  prob_constraints :: "constr list"
  prob_solved :: 's

record 's result =
  res_prob :: "'s problem"
  res_deltas :: "variable list"
  res_lambdas :: "variable list"
  res_A :: "matrix list"

definition solve_arbitrage ::
  "(objective \<Rightarrow> constr list \<Rightarrow> 's) \<Rightarrow> 'g list \<Rightarrow> int list list \<Rightarrow> real list list \<Rightarrow>
     real list \<Rightarrow> real list \<Rightarrow> error + 's result" where
  "solve_arbitrage solve global_indices local_indices reserves fees market_value =
     (let n = length global_indices in
      and_then (build_A n local_indices) (\<lambda>A.
      and_then (variables Delta 0 local_indices) (\<lambda>deltas.
      and_then (variables Lambda 0 local_indices) (\<lambda>lambdas.
      let psi = cp_sum_list (psi_terms A deltas lambdas) in
      and_then (build_objective n market_value psi) (\<lambda>obj.
      and_then (build_new_reserves reserves fees deltas lambdas) (\<lambda>new_reserves.
      and_then (build_constraints new_reserves reserves psi) (\<lambda>cons.
      Inr \<lparr>res_prob = \<lparr>prob_objective = obj, prob_constraints = cons,
                         prob_solved = solve obj cons\<rparr>,
           res_deltas = deltas, res_lambdas = lambdas, res_A = A\<rparr>)))))))"

section \<open>What the expressions mean\<close>

text \<open>An assignment gives every decision variable a vector of reals.\<close>

type_synonym assignment = "var \<Rightarrow> real list"

text \<open>
  An operation on two values, entry by entry; a value of one entry is broadcast along the
  other.
\<close>

definition bc :: "(real \<Rightarrow> real \<Rightarrow> real) \<Rightarrow> real list \<Rightarrow> real list \<Rightarrow> real list" where
  "bc f xs ys =
     (if length xs = 1 \<and> length ys \<noteq> 1 then map (f (hd xs)) ys
      else if length ys = 1 \<and> length xs \<noteq> 1 then map (\<lambda>x. f x (hd ys)) xs
      else map2 f xs ys)"

definition dot :: "real list \<Rightarrow> real list \<Rightarrow> real" where
  "dot xs ys = sum_list (map2 (*) xs ys)"

text \<open>
  The weighted geometric mean \<open>(x\<^sub>1 ^ p\<^sub>1 * ... * x\<^sub>k ^ p\<^sub>k) ^ (1 / (p\<^sub>1 + ... + p\<^sub>k))\<close>
  of non-negative reals with natural weights; without weights every weight is \<open>1\<close>.
\<close>

definition geo_mean :: "real list \<Rightarrow> nat list \<Rightarrow> real" where
  "geo_mean xs p = root (sum_list p) (prod_list (map2 (\<lambda>x k. x ^ k) xs p))"

definition weights :: "nat list option \<Rightarrow> nat \<Rightarrow> nat list" where
  "weights p k = (case p of None \<Rightarrow> replicate k 1 | Some w \<Rightarrow> w)"

fun eval :: "assignment \<Rightarrow> expr \<Rightarrow> real list" where
  "eval \<sigma> (Num c) = [c]"
| "eval \<sigma> (Vec v) = v"
| "eval \<sigma> (Var v) = \<sigma> (var_id v)"
| "eval \<sigma> (Add a b) = bc (+) (eval \<sigma> a) (eval \<sigma> b)"
| "eval \<sigma> (Sub a b) = bc (-) (eval \<sigma> a) (eval \<sigma> b)"
| "eval \<sigma> (Scale c e) = map ((*) c) (eval \<sigma> e)"
| "eval \<sigma> (MatMul M e) = map (\<lambda>row. dot row (eval \<sigma> e)) (cells M)"
| "eval \<sigma> (Dot v e) = [dot v (eval \<sigma> e)]"
| "eval \<sigma> (GeoMean e p) = [geo_mean (eval \<sigma> e) (weights p (length (eval \<sigma> e)))]"
| "eval \<sigma> (Sum e) = [sum_list (eval \<sigma> e)]"

text \<open>
  The geometric mean is defined on non-negative vectors only: a constraint that bounds it
  from below also asks its argument to be non-negative.
\<close>

fun in_domain :: "assignment \<Rightarrow> expr \<Rightarrow> bool" where
  "in_domain \<sigma> (GeoMean e p) = (in_domain \<sigma> e \<and> list_all (\<lambda>x. 0 \<le> x) (eval \<sigma> e))"
| "in_domain \<sigma> (Add a b) = (in_domain \<sigma> a \<and> in_domain \<sigma> b)"
| "in_domain \<sigma> (Sub a b) = (in_domain \<sigma> a \<and> in_domain \<sigma> b)"
| "in_domain \<sigma> (Scale c e) = in_domain \<sigma> e"
| "in_domain \<sigma> (MatMul M e) = in_domain \<sigma> e"
| "in_domain \<sigma> (Dot v e) = in_domain \<sigma> e"
| "in_domain \<sigma> (Sum e) = in_domain \<sigma> e"
| "in_domain \<sigma> _ = True"

text \<open>\<open>a >= b\<close> holds when \<open>a - b\<close> is non-negative in every entry.\<close>

fun holds :: "assignment \<Rightarrow> constr \<Rightarrow> bool" where
  "holds \<sigma> (GE a b) =
     (in_domain \<sigma> a \<and> in_domain \<sigma> b \<and> list_all (\<lambda>d. 0 \<le> d) (bc (-) (eval \<sigma> a) (eval \<sigma> b)))"

text \<open>The variables an expression or a constraint mentions.\<close>

fun vars :: "expr \<Rightarrow> var list" where
  "vars (Var v) = [var_id v]"
| "vars (Add a b) = vars a @ vars b"
| "vars (Sub a b) = vars a @ vars b"
| "vars (Scale c e) = vars e"
| "vars (MatMul M e) = vars e"
| "vars (Dot v e) = vars e"
| "vars (GeoMean e p) = vars e"
| "vars (Sum e) = vars e"
| "vars _ = []"

fun cvars :: "constr \<Rightarrow> var list" where
  "cvars (GE a b) = vars a @ vars b"

text \<open>The assignment of the zero trade: every deposit and every withdrawal is \<open>0\<close>.\<close>

definition zero_trade :: "int list list \<Rightarrow> assignment" where
  "zero_trade local_indices x =
     (case x of Delta l \<Rightarrow> replicate (length (local_indices ! l)) 0
              | Lambda l \<Rightarrow> replicate (length (local_indices ! l)) 0)"

section \<open>The reference scenario\<close>

text \<open>The input of \<^verbatim>\<open>test_arbitrage\<close> in \<^verbatim>\<open>tests/test_arbitrage.py\<close>.\<close>

definition test_global_indices :: "nat list" where
  "test_global_indices = [0, 1, 2, 3]"

definition test_local_indices :: "int list list" where
  "test_local_indices = [[0, 1, 2, 3], [0, 1], [1, 2], [2, 3], [2, 3]]"

definition test_reserves :: "real list list" where
  "test_reserves = [[4, 4, 4, 4], [10, 1], [1, 5], [40, 50], [10, 10]]"

definition test_fees :: "real list" where
  "test_fees = [998 / 1000, 997 / 1000, 997 / 1000, 997 / 1000, 999 / 1000]"

definition test_market_value :: "real list" where
  "test_market_value = [3 / 2, 10, 2, 3]"

text \<open>A sample trade in that scenario: every deposit entry is \<open>1\<close>, every withdrawal entry \<open>2\<close>.\<close>

definition test_trade :: "var \<Rightarrow> real list" where
  "test_trade x =
     (case x of Delta l \<Rightarrow> replicate (length (test_local_indices ! l)) 1
              | Lambda l \<Rightarrow> replicate (length (test_local_indices ! l)) 2)"

text \<open>A solver that reports nothing: the model is built the same whatever the solver does.\<close>

definition no_solver :: "objective \<Rightarrow> constr list \<Rightarrow> unit" where
  "no_solver obj cons = ()"

section \<open>Notions used to state the properties\<close>

text \<open>
  The expression a constraint of a pool bounds: the argument of the geometric mean or of
  the sum on its left side, or the left side itself.
\<close>

fun constrained_reserves :: "constr \<Rightarrow> expr" where
  "constrained_reserves (GE (GeoMean e p) b) = e"
| "constrained_reserves (GE (Sum e) b) = e"
| "constrained_reserves (GE a b) = a"

text \<open>
  The post-trade reserve expression of pool \<open>l\<close>, as line 27 writes it on the pool's
  reserves, fee retention and two variables.
\<close>

definition pool_post_trade :: "int list list \<Rightarrow> real list list \<Rightarrow> real list \<Rightarrow> nat \<Rightarrow> expr" where
  "pool_post_trade local_indices reserves fees l =
     post_trade (reserves ! l) (fees ! l)
       (Variable (Delta l) (length (local_indices ! l)))
       (Variable (Lambda l) (length (local_indices ! l)))"

text \<open>The expression \<^verbatim>\<open>psi\<close> of a returned problem, rebuilt from what the call returns.\<close>

definition psi_of :: "'s result \<Rightarrow> expr" where
  "psi_of res = cp_sum_list (psi_terms (res_A res) (res_deltas res) (res_lambdas res))"

text \<open>A constraint mentions pool \<open>l\<close> when one of the pool's two variables occurs in it.\<close>

definition mentions :: "nat \<Rightarrow> constr \<Rightarrow> bool" where
  "mentions l c = (Delta l \<in> set (cvars c) \<or> Lambda l \<in> set (cvars c))"

text \<open>
  A constraint is about pool \<open>l\<close> alone when it has variables and all of them are the
  variables of pool \<open>l\<close>.
\<close>

definition pool_constraint :: "nat \<Rightarrow> constr \<Rightarrow> bool" where
  "pool_constraint l c =
     (cvars c \<noteq> [] \<and> list_all (\<lambda>x. x = Delta l \<or> x = Lambda l) (cvars c))"

text \<open>
  The indices numpy accepts for an array of \<open>n\<close> rows, and the row such an index stands
  for.
\<close>

definition in_rows :: "nat \<Rightarrow> int \<Rightarrow> bool" where
  "in_rows n idx = (- int n \<le> idx \<and> idx < int n)"

definition row_of :: "nat \<Rightarrow> int \<Rightarrow> nat" where
  "row_of n idx = (if 0 \<le> idx then nat idx else nat (int n + idx))"

text \<open>A matrix whose rows agree with its shape.\<close>

definition well_shaped :: "matrix \<Rightarrow> bool" where
  "well_shaped M = (length (cells M) = nrows M \<and> list_all (\<lambda>row. length row = ncols M) (cells M))"

section \<open>The index mapper builds incidence matrices\<close>

lemma well_shaped_zeros: "well_shaped (zeros n k)"
  by (simp add: well_shaped_def zeros_def list_all_length)

lemma set_cell_shape:
  "well_shaped M \<Longrightarrow> well_shaped (set_cell M r c v) \<and> nrows (set_cell M r c v) = nrows M
     \<and> ncols (set_cell M r c v) = ncols M"
proof (cases "r < length (cells M)")
  case True
  assume "well_shaped M"
  then show ?thesis using True
    by (auto simp: well_shaped_def set_cell_def list_all_length nth_list_update)
next
  case False
  assume "well_shaped M"
  then show ?thesis using False
    by (simp add: well_shaped_def set_cell_def list_update_beyond)
qed

lemma set_cell_nth:
  "well_shaped M \<Longrightarrow> r < nrows M \<Longrightarrow> c < ncols M \<Longrightarrow> r' < nrows M \<Longrightarrow> c' < ncols M \<Longrightarrow>
     cells (set_cell M r c v) ! r' ! c' = (if r' = r \<and> c' = c then v else cells M ! r' ! c')"
  by (auto simp: well_shaped_def set_cell_def list_all_length nth_list_update)

lemma np_row_in_rows: "in_rows n idx \<Longrightarrow> np_row n idx = Inr (row_of n idx) \<and> row_of n idx < n"
  by (auto simp: np_row_def in_rows_def row_of_def)

lemma np_row_Inr: "np_row n idx = Inr r \<Longrightarrow> in_rows n idx"
  by (auto simp: np_row_def in_rows_def split: if_splits)


lemma fill_cells:
  assumes "well_shaped M" and "i + length l \<le> ncols M"
    and "\<forall>idx\<in>set l. in_rows (nrows M) idx"
  shows "\<exists>M'. fill M i l = Inr M' \<and> well_shaped M' \<and> nrows M' = nrows M \<and> ncols M' = ncols M
           \<and> (\<forall>r<nrows M. \<forall>c<ncols M. cells M' ! r ! c =
                 (if i \<le> c \<and> c < i + length l \<and> r = row_of (nrows M) (l ! (c - i)) then 1
                  else cells M ! r ! c))"
  using assms
proof (induction l arbitrary: M i)
  case Nil
  then show ?case by simp
next
  case (Cons idx rest)
  let ?n = "nrows M"
  let ?M1 = "set_cell M (row_of ?n idx) i 1"
  from Cons.prems have idx: "in_rows ?n idx" by simp
  have row: "np_row ?n idx = Inr (row_of ?n idx)" and n: "row_of ?n idx < ?n"
    using np_row_in_rows [OF idx] by simp_all
  have sh: "well_shaped ?M1" "nrows ?M1 = ?n" "ncols ?M1 = ncols M"
    using set_cell_shape [OF Cons.prems(1)] by auto
  have "\<exists>M'. fill ?M1 (Suc i) rest = Inr M' \<and> well_shaped M' \<and> nrows M' = nrows ?M1
           \<and> ncols M' = ncols ?M1
           \<and> (\<forall>r<nrows ?M1. \<forall>c<ncols ?M1. cells M' ! r ! c =
                 (if Suc i \<le> c \<and> c < Suc i + length rest \<and>
                     r = row_of (nrows ?M1) (rest ! (c - Suc i)) then 1
                  else cells ?M1 ! r ! c))"
    using Cons.prems sh by (intro Cons.IH) auto
  then obtain M' where M': "fill ?M1 (Suc i) rest = Inr M'" "well_shaped M'"
      "nrows M' = ?n" "ncols M' = ncols M"
      and cellsM': "\<And>r c. r < ?n \<Longrightarrow> c < ncols M \<Longrightarrow> cells M' ! r ! c =
                 (if Suc i \<le> c \<and> c < Suc i + length rest \<and>
                     r = row_of ?n (rest ! (c - Suc i)) then 1
                  else cells ?M1 ! r ! c)"
    using sh by auto
  have "cells M' ! r ! c =
          (if i \<le> c \<and> c < i + length (idx # rest) \<and> r = row_of ?n ((idx # rest) ! (c - i)) then 1
           else cells M ! r ! c)" if rc: "r < ?n" "c < ncols M" for r c
  proof -
    have i: "i < ncols M" using Cons.prems(2) by simp
    have c1: "cells ?M1 ! r ! c = (if r = row_of ?n idx \<and> c = i then 1 else cells M ! r ! c)"
      using set_cell_nth [OF Cons.prems(1) n i rc] .
    show ?thesis
    proof (cases "c = i")
      case True
      then show ?thesis using cellsM' [OF rc] c1 by auto
    next
      case False
      then have "c - i = Suc (c - Suc i)" if "i \<le> c"
        using that by arith
      then have "(idx # rest) ! (c - i) = rest ! (c - Suc i)" if "i \<le> c"
        using that by simp
      then show ?thesis using cellsM' [OF rc] c1 False by auto
    qed
  qed
  then show ?case using M' row by auto
qed

lemma fill_Inr_in_rows: "fill M i l = Inr M' \<Longrightarrow> \<forall>idx\<in>set l. in_rows (nrows M) idx"
proof (induction l arbitrary: M i)
  case Nil
  then show ?case by simp
next
  case (Cons idx rest)
  then obtain r where r: "np_row (nrows M) idx = Inr r"
      and rest: "fill (set_cell M r i 1) (Suc i) rest = Inr M'"
    by (auto split: sum.splits)
  have "\<forall>idx\<in>set rest. in_rows (nrows (set_cell M r i 1)) idx"
    using rest by (rule Cons.IH)
  then show ?case using np_row_Inr [OF r] by (simp add: set_cell_def)
qed


lemma zeros_cell: "r < n \<Longrightarrow> c < k \<Longrightarrow> cells (zeros n k) ! r ! c = 0"
  by (simp add: zeros_def)

lemma incidence_cells:
  assumes "\<forall>idx\<in>set l. in_rows n idx"
  shows "\<exists>M. incidence n l = Inr M \<and> well_shaped M \<and> nrows M = n \<and> ncols M = length l
           \<and> (\<forall>r<n. \<forall>c<length l. cells M ! r ! c = (if r = row_of n (l ! c) then 1 else 0))"
proof -
  let ?Z = "zeros n (length l)"
  have Z: "nrows ?Z = n" "ncols ?Z = length l" by (simp_all add: zeros_def)
  have "\<exists>M'. fill ?Z 0 l = Inr M' \<and> well_shaped M'
           \<and> nrows M' = nrows ?Z \<and> ncols M' = ncols ?Z
           \<and> (\<forall>r<nrows ?Z. \<forall>c<ncols ?Z. cells M' ! r ! c =
                 (if 0 \<le> c \<and> c < 0 + length l \<and> r = row_of (nrows ?Z) (l ! (c - 0)) then 1
                  else cells ?Z ! r ! c))"
    using assms Z by (intro fill_cells well_shaped_zeros) simp_all
  then obtain M where M: "fill ?Z 0 l = Inr M" "well_shaped M" "nrows M = n"
      "ncols M = length l"
    and c: "\<And>r c. r < n \<Longrightarrow> c < length l \<Longrightarrow>
              cells M ! r ! c = (if r = row_of n (l ! c) then 1 else cells ?Z ! r ! c)"
    using Z by auto
  have "cells M ! r ! c = (if r = row_of n (l ! c) then 1 else 0)" if "r < n" "c < length l" for r c
    using c [OF that] zeros_cell [OF that] by simp
  then show ?thesis using M by (simp add: incidence_def)
qed

lemma incidence_valid:
  assumes "\<forall>idx\<in>set l. 0 \<le> idx \<and> idx < int n"
  shows "\<exists>M. incidence n l = Inr M \<and> well_shaped M \<and> nrows M = n \<and> ncols M = length l
           \<and> (\<forall>r<n. \<forall>c<length l. cells M ! r ! c = (if int r = l ! c then 1 else 0))"
proof -
  have "\<forall>idx\<in>set l. in_rows n idx" using assms by (auto simp: in_rows_def)
  from incidence_cells [OF this] obtain M where M: "incidence n l = Inr M" "well_shaped M"
      "nrows M = n" "ncols M = length l"
    and c: "\<And>r c. r < n \<Longrightarrow> c < length l \<Longrightarrow>
              cells M ! r ! c = (if r = row_of n (l ! c) then 1 else 0)"
    by auto
  have "cells M ! r ! c = (if int r = l ! c then 1 else 0)" if "r < n" "c < length l" for r c
  proof -
    have "0 \<le> l ! c" using assms that(2) by simp
    then have "r = row_of n (l ! c) \<longleftrightarrow> int r = l ! c" by (auto simp: row_of_def)
    then show ?thesis using c [OF that] by simp
  qed
  then show ?thesis using M by auto
qed


lemma build_A_Inr:
  "build_A n local_indices = Inr A \<Longrightarrow> length A = length local_indices
           \<and> (\<forall>k<length local_indices. incidence n (local_indices ! k) = Inr (A ! k))"
proof (induction local_indices arbitrary: A)
  case Nil
  then show ?case by simp
next
  case (Cons l ls)
  then show ?case
    by (auto simp: nth_Cons split: sum.splits nat.splits)
qed

lemma fill_shape:
  "fill M i l = Inr M' \<Longrightarrow> nrows M' = nrows M \<and> ncols M' = ncols M \<and> (well_shaped M \<longrightarrow> well_shaped M')"
proof (induction l arbitrary: M i)
  case Nil
  then show ?case by simp
next
  case (Cons idx rest)
  then show ?case
    by (auto split: sum.splits dest!: Cons.IH simp: set_cell_shape) (simp_all add: set_cell_def)
qed

lemma incidence_shape:
  "incidence n l = Inr M \<Longrightarrow> nrows M = n \<and> ncols M = length l \<and> well_shaped M"
  using fill_shape [of "zeros n (length l)" 0 l M] well_shaped_zeros [of n "length l"]
  by (simp add: incidence_def zeros_def)

lemma build_A_Inr_in_rows:
  "build_A n local_indices = Inr A \<Longrightarrow> \<forall>l\<in>set local_indices. \<forall>idx\<in>set l. in_rows n idx"
proof (induction local_indices arbitrary: A)
  case Nil
  then show ?case by simp
next
  case (Cons l ls)
  then obtain M As where M: "incidence n l = Inr M" and As: "build_A n ls = Inr As"
    by (auto split: sum.splits)
  have "\<forall>idx\<in>set l. in_rows n idx"
    using fill_Inr_in_rows [of "zeros n (length l)" 0 l M] M
    by (simp add: incidence_def zeros_def)
  then show ?case using Cons.IH [OF As] by simp
qed



section \<open>What each statement of the entry point returns\<close>

lemma variables_closed:
  "variables mk j li =
     (if [] \<in> set li then Inl (ValueError, Variables)
      else Inr (map (\<lambda>i. Variable (mk (j + i)) (length (li ! i))) [0..<length li]))"
proof (induction li arbitrary: j)
  case Nil
  then show ?case by simp
next
  case (Cons l ls)
  have "map (\<lambda>i. Variable (mk (j + i)) (length ((l # ls) ! i))) [0..<length (l # ls)] =
        Variable (mk j) (length l) # map (\<lambda>i. Variable (mk (Suc j + i)) (length (ls ! i))) [0..<length ls]"
    by (simp add: upt_conv_Cons map_Suc_upt [symmetric] del: upt_Suc)
  then show ?case using Cons.IH [of "Suc j"] by auto
qed

lemma variables_Inr:
  "variables mk 0 li = Inr vs \<Longrightarrow>
     length vs = length li \<and> (\<forall>l<length li. vs ! l = Variable (mk l) (length (li ! l)))"
  by (auto simp: variables_closed split: if_splits)

lemma psi_terms_closed:
  "length Ds = length As \<Longrightarrow> length Ls = length As \<Longrightarrow>
     psi_terms As Ds Ls = map (\<lambda>l. MatMul (As ! l) (Sub (Var (Ls ! l)) (Var (Ds ! l)))) [0..<length As]"
proof (induction As Ds Ls rule: psi_terms.induct)
  case (1 A_i As D Ds L Ls)
  have "map (\<lambda>l. MatMul ((A_i # As) ! l) (Sub (Var ((L # Ls) ! l)) (Var ((D # Ds) ! l)))) [0..<length (A_i # As)] =
        MatMul A_i (Sub (Var L) (Var D)) # map (\<lambda>l. MatMul (As ! l) (Sub (Var (Ls ! l)) (Var (Ds ! l)))) [0..<length As]"
    by (simp add: upt_conv_Cons map_Suc_upt [symmetric] del: upt_Suc)
  then show ?case using 1 by simp
qed simp_all


lemma build_objective_Inr:
  "build_objective n mv psi = Inr obj \<Longrightarrow> obj = Maximize (Dot mv psi) \<and> length mv = n"
  by (cases psi) (auto simp: build_objective_def split: if_splits)

lemma build_objective_no_pool: "build_objective n mv (cp_sum_list []) = Inl (TypeError, Objective)"
  by (simp add: build_objective_def cp_sum_list_def)


lemma new_reserve_Inr:
  "new_reserve R g D L = Inr e \<Longrightarrow> e = post_trade R g D L \<and> R \<noteq> []"
  by (auto simp: new_reserve_def split: if_splits)



lemma build_new_reserves_Inr:
  "build_new_reserves Rs gs Ds Ls = Inr nr \<Longrightarrow>
     length nr = min (min (length Rs) (length gs)) (min (length Ds) (length Ls)) \<and>
     (\<forall>l<length nr. new_reserve (Rs ! l) (gs ! l) (Ds ! l) (Ls ! l) = Inr (nr ! l))"
proof (induction Rs gs Ds Ls arbitrary: nr rule: build_new_reserves.induct)
  case (1 R Rs g gs D Ds L Ls)
  then show ?case
    by (auto split: sum.splits simp: nth_Cons split: nat.splits)
qed auto

lemma build_new_reserves_nth:
  assumes "build_new_reserves Rs gs Ds Ls = Inr nr" and "l < length nr"
  shows "nr ! l = post_trade (Rs ! l) (gs ! l) (Ds ! l) (Ls ! l)"
  using build_new_reserves_Inr [OF assms(1)] assms(2) new_reserve_Inr by metis


lemma and_then_Inr: "and_then m f = Inr y \<longleftrightarrow> (\<exists>x. m = Inr x \<and> f x = Inr y)"
  by (cases m) (simp_all add: and_then_def)

lemma item_Inr: "item xs i = Inr x \<longleftrightarrow> i < length xs \<and> x = xs ! i"
  by (auto simp: item_def)

lemma build_constraints_Inr:
  "build_constraints nr rs psi = Inr cons \<longleftrightarrow>
     5 \<le> length nr \<and> 5 \<le> length rs \<and> dim (nr ! 0) = 4 \<and>
     cons = [ GE (GeoMean (nr ! 0) (Some [4, 3, 2, 1])) (GeoMean (Vec (rs ! 0)) None),
              GE (GeoMean (nr ! 1) None) (GeoMean (Vec (rs ! 1)) None),
              GE (GeoMean (nr ! 2) None) (GeoMean (Vec (rs ! 2)) None),
              GE (GeoMean (nr ! 3) None) (GeoMean (Vec (rs ! 3)) None),
              GE (Sum (nr ! 4)) (Sum (Vec (rs ! 4))),
              GE (nr ! 4) (Num 0),
              GE psi (Num 0) ]"
  unfolding build_constraints_def and_then_Inr item_Inr geo_mean_p_def
  by (auto split: if_splits)







lemma solve_arbitrage_Inr:
  "solve_arbitrage solve gi li rs fs mv = Inr res \<longleftrightarrow>
     (\<exists>A deltas lambdas obj nr cons.
        build_A (length gi) li = Inr A \<and>
        variables Delta 0 li = Inr deltas \<and>
        variables Lambda 0 li = Inr lambdas \<and>
        build_objective (length gi) mv (cp_sum_list (psi_terms A deltas lambdas)) = Inr obj \<and>
        build_new_reserves rs fs deltas lambdas = Inr nr \<and>
        build_constraints nr rs (cp_sum_list (psi_terms A deltas lambdas)) = Inr cons \<and>
        res = \<lparr>res_prob = \<lparr>prob_objective = obj, prob_constraints = cons,
                              prob_solved = solve obj cons\<rparr>,
                res_deltas = deltas, res_lambdas = lambdas, res_A = A\<rparr>)"
  unfolding solve_arbitrage_def Let_def and_then_Inr
  by auto

lemma returned_A:
  "solve_arbitrage solve global_indices local_indices reserves fees market_value = Inr res \<Longrightarrow>
     build_A (length global_indices) local_indices = Inr (res_A res)"
  unfolding solve_arbitrage_Inr by auto



section \<open>The problem a call returns\<close>

lemma vars_post_trade: "vars (post_trade R g D L) = [var_id D, var_id L]"
  by (simp add: post_trade_def)

lemma vars_foldl_Add: "vars (foldl Add acc ts) = vars acc @ concat (map vars ts)"
  by (induction ts arbitrary: acc) simp_all

lemma vars_cp_sum_list: "vars (cp_sum_list ts) = concat (map vars ts)"
  by (simp add: cp_sum_list_def vars_foldl_Add)

lemma set_vars_psi:
  assumes "length A = m" and "length deltas = m" and "length lambdas = m"
    and "\<forall>l<m. var_id (deltas ! l) = Delta l \<and> var_id (lambdas ! l) = Lambda l"
  shows "set (vars (cp_sum_list (psi_terms A deltas lambdas))) =
           Delta ` {..<m} \<union> Lambda ` {..<m}"
proof -
  have "psi_terms A deltas lambdas =
          map (\<lambda>l. MatMul (A ! l) (Sub (Var (lambdas ! l)) (Var (deltas ! l)))) [0..<m]"
    using psi_terms_closed [of deltas A lambdas] assms(1-3) by simp
  then have "set (vars (cp_sum_list (psi_terms A deltas lambdas))) =
          (\<Union>l\<in>{..<m}. {var_id (lambdas ! l), var_id (deltas ! l)})"
    by (auto simp: vars_cp_sum_list)
  also have "\<dots> = (\<Union>l\<in>{..<m}. {Lambda l, Delta l})"
    using assms(4) by auto
  finally show ?thesis by auto
qed

lemma vars_pool_post_trade: "vars (pool_post_trade li rs fs l) = [Delta l, Lambda l]"
  by (simp add: pool_post_trade_def post_trade_def)

text \<open>
  What a returned problem looks like: the seven constraints, written on the post-trade
  reserve expressions of pools \<open>0\<close> to \<open>4\<close>, the objective, and the variables of \<open>psi\<close>.
\<close>

lemma returned_problem:
  assumes "solve_arbitrage solve global_indices local_indices reserves fees market_value = Inr res"
  shows "prob_constraints (res_prob res) =
       [ GE (GeoMean (pool_post_trade local_indices reserves fees 0) (Some [4, 3, 2, 1]))
            (GeoMean (Vec (reserves ! 0)) None),
         GE (GeoMean (pool_post_trade local_indices reserves fees 1) None)
            (GeoMean (Vec (reserves ! 1)) None),
         GE (GeoMean (pool_post_trade local_indices reserves fees 2) None)
            (GeoMean (Vec (reserves ! 2)) None),
         GE (GeoMean (pool_post_trade local_indices reserves fees 3) None)
            (GeoMean (Vec (reserves ! 3)) None),
         GE (Sum (pool_post_trade local_indices reserves fees 4)) (Sum (Vec (reserves ! 4))),
         GE (pool_post_trade local_indices reserves fees 4) (Num 0),
         GE (psi_of res) (Num 0) ]"
    and "prob_objective (res_prob res) = Maximize (Dot market_value (psi_of res))"
    and "set (vars (psi_of res)) =
           Delta ` {..<length local_indices} \<union> Lambda ` {..<length local_indices}"
    and "5 \<le> length local_indices" and "5 \<le> length reserves" and "5 \<le> length fees"
    and "dim (pool_post_trade local_indices reserves fees 0) = 4"
    and "length market_value = length global_indices"
proof -
  let ?n = "length global_indices" and ?m = "length local_indices"
  from assms obtain A deltas lambdas obj nr cons where
    A: "build_A ?n local_indices = Inr A" and
    D: "variables Delta 0 local_indices = Inr deltas" and
    L: "variables Lambda 0 local_indices = Inr lambdas" and
    obj: "build_objective ?n market_value (cp_sum_list (psi_terms A deltas lambdas)) = Inr obj" and
    nr: "build_new_reserves reserves fees deltas lambdas = Inr nr" and
    cons: "build_constraints nr reserves (cp_sum_list (psi_terms A deltas lambdas)) = Inr cons" and
    res: "res = \<lparr>res_prob = \<lparr>prob_objective = obj, prob_constraints = cons,
                              prob_solved = solve obj cons\<rparr>,
                res_deltas = deltas, res_lambdas = lambdas, res_A = A\<rparr>"
    unfolding solve_arbitrage_Inr by blast
  have psi: "psi_of res = cp_sum_list (psi_terms A deltas lambdas)"
    by (simp add: psi_of_def res)
  have lens: "length A = ?m" "length deltas = ?m" "length lambdas = ?m"
    and vs: "\<And>l. l < ?m \<Longrightarrow> deltas ! l = Variable (Delta l) (length (local_indices ! l))"
            "\<And>l. l < ?m \<Longrightarrow> lambdas ! l = Variable (Lambda l) (length (local_indices ! l))"
    using build_A_Inr [OF A] variables_Inr [OF D] variables_Inr [OF L] by simp_all
  from cons have len: "5 \<le> length nr" "5 \<le> length reserves" and d: "dim (nr ! 0) = 4" and
    c: "cons = [ GE (GeoMean (nr ! 0) (Some [4, 3, 2, 1])) (GeoMean (Vec (reserves ! 0)) None),
              GE (GeoMean (nr ! 1) None) (GeoMean (Vec (reserves ! 1)) None),
              GE (GeoMean (nr ! 2) None) (GeoMean (Vec (reserves ! 2)) None),
              GE (GeoMean (nr ! 3) None) (GeoMean (Vec (reserves ! 3)) None),
              GE (Sum (nr ! 4)) (Sum (Vec (reserves ! 4))),
              GE (nr ! 4) (Num 0),
              GE (psi_of res) (Num 0) ]"
    unfolding build_constraints_Inr psi by simp_all
  show m: "5 \<le> ?m" "5 \<le> length fees" "5 \<le> length reserves"
    using build_new_reserves_Inr [OF nr] len lens by simp_all
  have nrl: "nr ! l = pool_post_trade local_indices reserves fees l" if "l < 5" for l
    using build_new_reserves_nth [OF nr, of l] that len(1) m vs [of l]
    by (simp add: pool_post_trade_def)
  show "dim (pool_post_trade local_indices reserves fees 0) = 4"
    using d nrl [of 0] by simp
  from nrl show "prob_constraints (res_prob res) =
       [ GE (GeoMean (pool_post_trade local_indices reserves fees 0) (Some [4, 3, 2, 1]))
            (GeoMean (Vec (reserves ! 0)) None),
         GE (GeoMean (pool_post_trade local_indices reserves fees 1) None)
            (GeoMean (Vec (reserves ! 1)) None),
         GE (GeoMean (pool_post_trade local_indices reserves fees 2) None)
            (GeoMean (Vec (reserves ! 2)) None),
         GE (GeoMean (pool_post_trade local_indices reserves fees 3) None)
            (GeoMean (Vec (reserves ! 3)) None),
         GE (Sum (pool_post_trade local_indices reserves fees 4)) (Sum (Vec (reserves ! 4))),
         GE (pool_post_trade local_indices reserves fees 4) (Num 0),
         GE (psi_of res) (Num 0) ]"
    using c by (simp add: res)
  show "set (vars (psi_of res)) = Delta ` {..<?m} \<union> Lambda ` {..<?m}"
    unfolding psi using lens vs by (intro set_vars_psi) simp_all
  show "prob_objective (res_prob res) = Maximize (Dot market_value (psi_of res))"
    using build_objective_Inr [OF obj] psi by (simp add: res)
  show "length market_value = length global_indices"
    using build_objective_Inr [OF obj] by simp
qed

lemma mentions_psi:
  assumes "solve_arbitrage solve global_indices local_indices reserves fees market_value = Inr res"
  shows "mentions l (GE (psi_of res) (Num 0)) \<longleftrightarrow> l < length local_indices"
  using returned_problem(3) [OF assms] by (auto simp: mentions_def)

section \<open>Values of the expressions\<close>

lemma bc_same_length: "length xs = length ys \<Longrightarrow> bc f xs ys = map2 f xs ys"
  by (auto simp: bc_def)

lemma bc_zero_left: "bc (+) [0] ys = ys"
proof (cases "length ys = 1")
  case True
  then obtain y where "ys = [y]" by (cases ys) auto
  then show ?thesis by (simp add: bc_def)
next
  case False
  then show ?thesis by (auto simp: bc_def intro: map_idI)
qed

lemma map2_nth_upt:
  "length xs = k \<Longrightarrow> length ys = k \<Longrightarrow> map2 f xs ys = map (\<lambda>j. f (xs ! j) (ys ! j)) [0..<k]"
  by (auto intro: nth_equalityI)

lemma dot_sum:
  "length xs = k \<Longrightarrow> length ys = k \<Longrightarrow> dot xs ys = (\<Sum>i<k. xs ! i * ys ! i)"
  by (simp add: dot_def map2_nth_upt [of xs k ys] interv_sum_list_conv_sum_set_nat atLeast0LessThan)

lemma eval_psi_term:
  assumes "well_shaped M" and "ncols M = k"
    and "length (\<sigma> (var_id D)) = k" and "length (\<sigma> (var_id L)) = k"
  shows "eval \<sigma> (MatMul M (Sub (Var L) (Var D))) =
           map (\<lambda>g. \<Sum>i<k. cells M ! g ! i * (\<sigma> (var_id L) ! i - \<sigma> (var_id D) ! i)) [0..<nrows M]"
proof -
  have len: "length (cells M) = nrows M" and row: "\<And>g. g < nrows M \<Longrightarrow> length (cells M ! g) = k"
    using assms(1,2) by (auto simp: well_shaped_def list_all_length)
  have diff: "bc (-) (\<sigma> (var_id L)) (\<sigma> (var_id D)) =
                map (\<lambda>i. \<sigma> (var_id L) ! i - \<sigma> (var_id D) ! i) [0..<k]"
    using assms(3,4) by (simp add: bc_same_length map2_nth_upt [of _ k])
  show ?thesis
    using len row by (auto simp: diff dot_sum [of _ k] intro!: nth_equalityI)
qed

lemma eval_foldl_Add:
  assumes "length (eval \<sigma> acc) = n" and "\<forall>t\<in>set ts. length (eval \<sigma> t) = n"
  shows "eval \<sigma> (foldl Add acc ts) =
           map (\<lambda>g. eval \<sigma> acc ! g + (\<Sum>t\<leftarrow>ts. eval \<sigma> t ! g)) [0..<n]"
  using assms
proof (induction ts arbitrary: acc)
  case Nil
  then show ?case by (auto intro!: nth_equalityI)
next
  case (Cons t ts)
  have step: "bc (+) (eval \<sigma> acc) (eval \<sigma> t) = map (\<lambda>g. eval \<sigma> acc ! g + eval \<sigma> t ! g) [0..<n]"
    using Cons.prems by (simp add: bc_same_length map2_nth_upt [of _ n])
  have "eval \<sigma> (foldl Add (Add acc t) ts) =
          map (\<lambda>g. eval \<sigma> (Add acc t) ! g + (\<Sum>t\<leftarrow>ts. eval \<sigma> t ! g)) [0..<n]"
    using Cons.prems by (intro Cons.IH) (simp_all add: step)
  then show ?case by (auto simp: step add.assoc)
qed

lemma eval_cp_sum_list:
  assumes "ts \<noteq> []" and "\<forall>t\<in>set ts. length (eval \<sigma> t) = n"
  shows "eval \<sigma> (cp_sum_list ts) = map (\<lambda>g. \<Sum>t\<leftarrow>ts. eval \<sigma> t ! g) [0..<n]"
proof -
  obtain t ts' where ts: "ts = t # ts'" using assms(1) by (cases ts) auto
  have "eval \<sigma> (foldl Add (Add (Num 0) t) ts') =
          map (\<lambda>g. eval \<sigma> (Add (Num 0) t) ! g + (\<Sum>t\<leftarrow>ts'. eval \<sigma> t ! g)) [0..<n]"
    using assms(2) unfolding ts by (intro eval_foldl_Add) (simp_all add: bc_zero_left)
  then show ?thesis by (simp add: cp_sum_list_def ts bc_zero_left)
qed

lemma eval_pool_post_trade:
  assumes "length (reserves ! l) = length (local_indices ! l)"
    and "length (\<sigma> (Delta l)) = length (local_indices ! l)"
    and "length (\<sigma> (Lambda l)) = length (local_indices ! l)"
  shows "eval \<sigma> (pool_post_trade local_indices reserves fees l) =
           map (\<lambda>j. reserves ! l ! j + fees ! l * \<sigma> (Delta l) ! j - \<sigma> (Lambda l) ! j)
             [0..<length (local_indices ! l)]"
  using assms
  by (auto simp: pool_post_trade_def post_trade_def bc_same_length intro!: nth_equalityI)

lemma eval_psi_of:
  assumes "solve_arbitrage solve global_indices local_indices reserves fees market_value = Inr res"
    and "\<forall>l<length local_indices.
           length (\<sigma> (Delta l)) = length (local_indices ! l) \<and>
           length (\<sigma> (Lambda l)) = length (local_indices ! l)"
  shows "eval \<sigma> (psi_of res) =
           map (\<lambda>g. \<Sum>l<length local_indices. \<Sum>i<length (local_indices ! l).
                  cells (res_A res ! l) ! g ! i * (\<sigma> (Lambda l) ! i - \<sigma> (Delta l) ! i))
             [0..<length global_indices]"
proof -
  let ?n = "length global_indices" and ?m = "length local_indices"
  from assms(1) obtain A deltas lambdas obj where
    A: "build_A ?n local_indices = Inr A" and
    D: "variables Delta 0 local_indices = Inr deltas" and
    L: "variables Lambda 0 local_indices = Inr lambdas" and
    obj: "build_objective ?n market_value (cp_sum_list (psi_terms A deltas lambdas)) = Inr obj" and
    res: "res_A res = A" "res_deltas res = deltas" "res_lambdas res = lambdas"
    unfolding solve_arbitrage_Inr by auto
  let ?ts = "psi_terms A deltas lambdas"
  let ?entry = "\<lambda>l g. \<Sum>i<length (local_indices ! l).
                  cells (A ! l) ! g ! i * (\<sigma> (Lambda l) ! i - \<sigma> (Delta l) ! i)"
  have lenA: "length A = ?m" and lenD: "length deltas = ?m" and lenL: "length lambdas = ?m"
    using build_A_Inr [OF A] variables_Inr [OF D] variables_Inr [OF L] by simp_all
  have ts: "?ts = map (\<lambda>l. MatMul (A ! l) (Sub (Var (lambdas ! l)) (Var (deltas ! l)))) [0..<?m]"
    using psi_terms_closed [of deltas A lambdas] lenA lenD lenL by simp
  have tm: "eval \<sigma> (MatMul (A ! l) (Sub (Var (lambdas ! l)) (Var (deltas ! l)))) =
                map (?entry l) [0..<?n]" if l: "l < ?m" for l
  proof -
    have sh: "well_shaped (A ! l)" "ncols (A ! l) = length (local_indices ! l)" "nrows (A ! l) = ?n"
      using build_A_Inr [OF A] l incidence_shape by blast+
    have ids: "var_id (deltas ! l) = Delta l" "var_id (lambdas ! l) = Lambda l"
      using variables_Inr [OF D] variables_Inr [OF L] l by simp_all
    have "length (\<sigma> (var_id (deltas ! l))) = length (local_indices ! l)"
         "length (\<sigma> (var_id (lambdas ! l))) = length (local_indices ! l)"
      using assms(2) l ids by simp_all
    from eval_psi_term [OF sh(1,2) this] show ?thesis by (simp add: ids sh(3))
  qed
  have nonempty: "?ts \<noteq> []"
  proof
    assume "?ts = []"
    with obj show False by (simp add: build_objective_no_pool)
  qed
  have "\<forall>t\<in>set ?ts. length (eval \<sigma> t) = ?n"
    unfolding ts using tm by auto
  from eval_cp_sum_list [OF nonempty this]
  have "eval \<sigma> (cp_sum_list ?ts) = map (\<lambda>g. \<Sum>t\<leftarrow>?ts. eval \<sigma> t ! g) [0..<?n]" .
  also have "\<dots> = map (\<lambda>g. \<Sum>l<?m. ?entry l g) [0..<?n]"
  proof (rule map_cong [OF refl])
    fix g assume "g \<in> set [0..<?n]"
    then have g: "g < ?n" by simp
    have "(\<Sum>t\<leftarrow>?ts. eval \<sigma> t ! g) =
            (\<Sum>l\<leftarrow>[0..<?m]. eval \<sigma> (MatMul (A ! l) (Sub (Var (lambdas ! l)) (Var (deltas ! l)))) ! g)"
      unfolding ts by (simp add: comp_def)
    also have "\<dots> = (\<Sum>l\<leftarrow>[0..<?m]. ?entry l g)"
      using tm g by (intro arg_cong [where f = sum_list] map_cong refl) simp
    also have "\<dots> = (\<Sum>l<?m. ?entry l g)"
      by (simp add: interv_sum_list_conv_sum_set_nat atLeast0LessThan)
    finally show "(\<Sum>t\<leftarrow>?ts. eval \<sigma> t ! g) = (\<Sum>l<?m. ?entry l g)" .
  qed
  finally show ?thesis by (simp add: psi_of_def res)
qed

section \<open>The zero trade\<close>

lemma zero_trade_lengths:
  "length (zero_trade local_indices (Delta l)) = length (local_indices ! l) \<and>
   length (zero_trade local_indices (Lambda l)) = length (local_indices ! l)"
  by (simp add: zero_trade_def)

lemma dot_zeros: "dot mv (replicate n 0) = 0"
  unfolding dot_def
proof (induction mv arbitrary: n)
  case Nil
  then show ?case by simp
next
  case (Cons x xs)
  then show ?case by (cases n) simp_all
qed

lemma eval_psi_of_zero_trade:
  assumes "solve_arbitrage solve global_indices local_indices reserves fees market_value = Inr res"
  shows "eval (zero_trade local_indices) (psi_of res) = replicate (length global_indices) 0"
proof -
  have "\<forall>l<length local_indices.
           length (zero_trade local_indices (Delta l)) = length (local_indices ! l) \<and>
           length (zero_trade local_indices (Lambda l)) = length (local_indices ! l)"
    using zero_trade_lengths by blast
  from eval_psi_of [OF assms this]
  have "eval (zero_trade local_indices) (psi_of res) =
          map (\<lambda>g. \<Sum>l<length local_indices. \<Sum>i<length (local_indices ! l).
                 cells (res_A res ! l) ! g ! i *
                 (zero_trade local_indices (Lambda l) ! i - zero_trade local_indices (Delta l) ! i))
            [0..<length global_indices]" .
  also have "\<dots> = map (\<lambda>g. 0) [0..<length global_indices]"
    by (intro map_cong refl sum.neutral ballI) (simp add: zero_trade_def)
  also have "\<dots> = replicate (length global_indices) 0"
    by (simp add: map_replicate_const)
  finally show ?thesis .
qed

lemma eval_pool_post_trade_zero_trade:
  assumes "length (reserves ! l) = length (local_indices ! l)"
  shows "eval (zero_trade local_indices) (pool_post_trade local_indices reserves fees l) =
           reserves ! l"
  using eval_pool_post_trade [OF assms, of "zero_trade local_indices" fees] assms
  by (auto simp: zero_trade_def intro!: nth_equalityI)

lemma in_domain_pool_post_trade: "in_domain \<sigma> (pool_post_trade li rs fs l)"
  by (simp add: pool_post_trade_def post_trade_def)

lemma bc_minus_zero: "list_all (\<lambda>d. 0 \<le> d) (bc (-) xs [0]) \<longleftrightarrow> list_all (\<lambda>x. 0 \<le> x) xs"
proof (cases "length xs = 1")
  case True
  then obtain x where "xs = [x]" by (cases xs) auto
  then show ?thesis by (simp add: bc_def)
next
  case False
  then show ?thesis by (simp add: bc_def list_all_iff)
qed

lemma in_domain_foldl_Add:
  "in_domain \<sigma> acc \<Longrightarrow> \<forall>t\<in>set ts. in_domain \<sigma> t \<Longrightarrow> in_domain \<sigma> (foldl Add acc ts)"
  by (induction ts arbitrary: acc) simp_all

lemma in_domain_psi_terms: "\<forall>t\<in>set (psi_terms As Ds Ls). in_domain \<sigma> t"
  by (induction As Ds Ls rule: psi_terms.induct) simp_all

lemma in_domain_psi_of: "in_domain \<sigma> (psi_of res)"
  by (simp add: psi_of_def cp_sum_list_def in_domain_foldl_Add in_domain_psi_terms)

text \<open>
  The zero trade in general. In a call that returns on non-negative reserves of the
  pools' arities, the zero trade satisfies the six constraints after the first, \<open>psi\<close>
  is the zero vector and the objective is \<open>0\<close>. The first constraint holds at the zero
  trade exactly when the plain geometric mean of the first pool's reserves is at most
  their geometric mean under the weights \<open>[4, 3, 2, 1]\<close>: it has the weights on its left
  side only.
\<close>

lemma zero_trade_and_the_constraints:
  assumes "solve_arbitrage solve global_indices local_indices reserves fees market_value = Inr res"
    and "\<forall>l<5. length (reserves ! l) = length (local_indices ! l) \<and>
                list_all (\<lambda>x. 0 \<le> x) (reserves ! l)"
  shows "list_all (holds (zero_trade local_indices)) (tl (prob_constraints (res_prob res)))"
    and "eval (zero_trade local_indices) (psi_of res) = replicate (length global_indices) 0"
    and "prob_objective (res_prob res) = Maximize (Dot market_value (psi_of res))"
    and "eval (zero_trade local_indices) (Dot market_value (psi_of res)) = [0]"
    and "holds (zero_trade local_indices) (hd (prob_constraints (res_prob res))) \<longleftrightarrow>
           geo_mean (reserves ! 0) [1, 1, 1, 1] \<le> geo_mean (reserves ! 0) [4, 3, 2, 1]"
proof -
  note p = returned_problem [OF assms(1)]
  let ?z = "zero_trade local_indices"
  have ev: "eval ?z (pool_post_trade local_indices reserves fees l) = reserves ! l"
    and nn: "list_all (\<lambda>x. 0 \<le> x) (reserves ! l)" if "l < 5" for l
    using assms(2) that by (simp_all add: eval_pool_post_trade_zero_trade)
  show psi: "eval ?z (psi_of res) = replicate (length global_indices) 0"
    by (rule eval_psi_of_zero_trade [OF assms(1)])
  show "prob_objective (res_prob res) = Maximize (Dot market_value (psi_of res))"
    by (rule p(2))
  show "eval ?z (Dot market_value (psi_of res)) = [0]"
    by (simp add: psi dot_zeros)
  have "list_all (\<lambda>x. 0 \<le> x) (replicate (length global_indices) (0::real))"
    by (simp add: list_all_iff)
  then have last: "holds ?z (GE (psi_of res) (Num 0))"
    by (simp add: psi bc_minus_zero in_domain_psi_of)
  have gm: "holds ?z (GE (GeoMean (pool_post_trade local_indices reserves fees l) None)
                         (GeoMean (Vec (reserves ! l)) None))" if "l < 5" for l
    using ev [OF that] nn [OF that] by (simp add: in_domain_pool_post_trade bc_def)
  have sm: "holds ?z (GE (Sum (pool_post_trade local_indices reserves fees 4))
                         (Sum (Vec (reserves ! 4))))"
    using ev [of 4] by (simp add: in_domain_pool_post_trade bc_def)
  have ge: "holds ?z (GE (pool_post_trade local_indices reserves fees 4) (Num 0))"
    using ev [of 4] nn [of 4] by (simp add: in_domain_pool_post_trade bc_minus_zero)
  show "list_all (holds ?z) (tl (prob_constraints (res_prob res)))"
    unfolding p(1) using gm [of 1] gm [of 2] gm [of 3] sm ge last by simp
  have "length (reserves ! 0) = 4"
    using p(7) assms(2) by (simp add: pool_post_trade_def post_trade_def)
  then have "weights None (length (reserves ! 0)) = [1, 1, 1, 1]"
    by (simp add: weights_def eval_nat_numeral)
  then show "holds ?z (hd (prob_constraints (res_prob res))) \<longleftrightarrow>
           geo_mean (reserves ! 0) [1, 1, 1, 1] \<le> geo_mean (reserves ! 0) [4, 3, 2, 1]"
    unfolding p(1) using ev [of 0] nn [of 0]
    by (simp add: in_domain_pool_post_trade bc_def weights_def)
qed

section \<open>Running the model on concrete inputs\<close>

lemmas build_defs =
  solve_arbitrage_def Let_def and_then_def incidence_def zeros_def np_row_def set_cell_def
  cp_sum_list_def build_objective_def new_reserve_def post_trade_def build_constraints_def
  item_def geo_mean_p_def

lemmas test_defs =
  test_global_indices_def test_local_indices_def test_reserves_def test_fees_def
  test_market_value_def

lemmas sem_defs = bc_def dot_def geo_mean_def weights_def zero_trade_def

lemma test_scenario_builds:
  "\<not> isl (solve_arbitrage solve test_global_indices test_local_indices test_reserves test_fees
             test_market_value)"
  by (simp add: build_defs test_defs)

lemma test_build_A:
  "build_A 4 test_local_indices =
     Inr [\<lparr>nrows = 4, ncols = 4, cells = [[1, 0, 0, 0], [0, 1, 0, 0], [0, 0, 1, 0], [0, 0, 0, 1]]\<rparr>,
          \<lparr>nrows = 4, ncols = 2, cells = [[1, 0], [0, 1], [0, 0], [0, 0]]\<rparr>,
          \<lparr>nrows = 4, ncols = 2, cells = [[0, 0], [1, 0], [0, 1], [0, 0]]\<rparr>,
          \<lparr>nrows = 4, ncols = 2, cells = [[0, 0], [0, 0], [1, 0], [0, 1]]\<rparr>,
          \<lparr>nrows = 4, ncols = 2, cells = [[0, 0], [0, 0], [1, 0], [0, 1]]\<rparr>]"
  by (simp add: build_defs test_defs eval_nat_numeral)

lemma root_10_16_less: "root 10 16 < root 4 (16::real)"
  by (rule real_root_strict_decreasing) simp_all

section \<open>Claim C1: feasibility of the zero trade\<close>

text \<open>
  Claim C1 says that the zero trade satisfies every constraint of the assembled problem.
  On the reference scenario with the reserves of the first pool changed from
  \<open>[4, 4, 4, 4]\<close> to \<open>[1, 1, 1, 16]\<close> the model is assembled, and the zero trade satisfies
  every constraint but the first: the constraint of pool \<open>0\<close> compares the geometric mean
  of the post-trade reserves under the weights \<open>[4, 3, 2, 1]\<close>, which is \<open>16 ^ (1/10)\<close> at
  the zero trade, with the unweighted geometric mean of the reserves, which is
  \<open>16 ^ (1/4) = 2\<close>. The constraints of pools \<open>1\<close> to \<open>3\<close> take the same mean on both
  sides.
\<close>

theorem zero_trade_breaks_weighted_pool_constraint:
  "map_sum id (\<lambda>res. map (holds (zero_trade test_local_indices)) (prob_constraints (res_prob res)))
     (solve_arbitrage no_solver test_global_indices test_local_indices
        ([1, 1, 1, 16] # tl test_reserves) test_fees test_market_value) =
   Inr [False, True, True, True, True, True, True]"
proof -
  have "\<not> root (Suc (Suc (Suc (Suc 0)))) 16 \<le> root 10 (16::real)"
    using root_10_16_less by (simp add: eval_nat_numeral)
  then show ?thesis
    by (simp add: build_defs test_defs sem_defs)
qed

section \<open>Claim C2: the post-trade reserves\<close>

text \<open>
  Claim C2. In a call that returns, the expression that each of the six per-pool
  constraints bounds (constraint \<open>k\<close> is about pool \<open>min k 4\<close>) is the post-trade reserve
  of that pool: for a pool \<open>l\<close> whose reserve vector has the pool's arity, and under any
  assignment of vectors of that arity to \<open>deposit\<^sub>l\<close> and \<open>withdraw\<^sub>l\<close>, its entry \<open>j\<close> is
  \<open>reserves\<^sub>l[j] + fees\<^sub>l * deposit\<^sub>l[j] - withdraw\<^sub>l[j]\<close>.
\<close>

theorem post_trade_reserves_formula:
  assumes "solve_arbitrage solve global_indices local_indices reserves fees market_value = Inr res"
    and "k < 6" and "l = min k 4"
    and "length (reserves ! l) = length (local_indices ! l)"
    and "length (\<sigma> (Delta l)) = length (local_indices ! l)"
    and "length (\<sigma> (Lambda l)) = length (local_indices ! l)"
  shows "eval \<sigma> (constrained_reserves (prob_constraints (res_prob res) ! k)) =
           map (\<lambda>j. reserves ! l ! j + fees ! l * \<sigma> (Delta l) ! j - \<sigma> (Lambda l) ! j)
             [0..<length (local_indices ! l)]"
proof -
  note p = returned_problem [OF assms(1)]
  have four: "constrained_reserves (GE (pool_post_trade local_indices reserves fees 4) (Num 0)) =
                pool_post_trade local_indices reserves fees 4"
    by (simp add: pool_post_trade_def post_trade_def)
  consider "k = 0" | "k = 1" | "k = 2" | "k = 3" | "k = 4" | "k = 5"
    using assms(2) by arith
  then have "constrained_reserves (prob_constraints (res_prob res) ! k) =
               pool_post_trade local_indices reserves fees l"
    by cases (simp_all add: p(1) assms(3) four)
  then show ?thesis
    using eval_pool_post_trade [OF assms(4-6)] by simp
qed

theorem post_trade_reserves_formula_witness:
  "\<not> isl (solve_arbitrage no_solver test_global_indices test_local_indices test_reserves test_fees
             test_market_value) \<and>
   (5::nat) < 6 \<and> (4::nat) = min 5 4 \<and>
   length (test_reserves ! 4) = length (test_local_indices ! 4) \<and>
   length (test_trade (Delta 4)) = length (test_local_indices ! 4) \<and>
   length (test_trade (Lambda 4)) = length (test_local_indices ! 4) \<and>
   eval test_trade (constrained_reserves (prob_constraints (res_prob (projr
     (solve_arbitrage no_solver test_global_indices test_local_indices test_reserves test_fees
        test_market_value))) ! 5)) = [8999 / 1000, 8999 / 1000]"
proof -
  let ?R = "solve_arbitrage no_solver test_global_indices test_local_indices test_reserves
              test_fees test_market_value"
  have ok: "\<not> isl ?R" by (rule test_scenario_builds)
  then have res: "?R = Inr (projr ?R)" by (cases ?R) simp_all
  have h: "(5::nat) < 6" "(4::nat) = min 5 4"
    "length (test_reserves ! 4) = length (test_local_indices ! 4)"
    "length (test_trade (Delta 4)) = length (test_local_indices ! 4)"
    "length (test_trade (Lambda 4)) = length (test_local_indices ! 4)"
    by (simp_all add: test_defs test_trade_def)
  have "map (\<lambda>j. test_reserves ! 4 ! j + test_fees ! 4 * test_trade (Delta 4) ! j
                  - test_trade (Lambda 4) ! j) [0..<length (test_local_indices ! 4)] =
        [8999 / 1000, 8999 / 1000]"
    by (simp add: test_defs test_trade_def eval_nat_numeral upt_rec)
  with post_trade_reserves_formula [OF res h]
  have "eval test_trade (constrained_reserves (prob_constraints (res_prob (projr ?R)) ! 5)) =
          [8999 / 1000, 8999 / 1000]"
    by simp
  with ok h show ?thesis by (intro conjI)
qed

section \<open>Claim C3: the objective and the extraction vector\<close>

text \<open>
  Claim C3. In a call that returns, the objective is \<^verbatim>\<open>Maximize(market_value @ psi)\<close> and
  \<^verbatim>\<open>psi >= 0\<close> is one of the constraints, where under any assignment of vectors of the
  pools' arities to the variables \<open>psi\<close> is the vector of length \<open>n\<close> whose entry \<open>g\<close> is
  the sum over the pools \<open>l\<close> and their slots \<open>i\<close> of \<open>A\<^sub>l[g, i] * (withdraw\<^sub>l[i] - deposit\<^sub>l[i])\<close>.
\<close>

theorem objective_is_market_value_of_psi:
  assumes "solve_arbitrage solve global_indices local_indices reserves fees market_value = Inr res"
    and "\<forall>l<length local_indices.
           length (\<sigma> (Delta l)) = length (local_indices ! l) \<and>
           length (\<sigma> (Lambda l)) = length (local_indices ! l)"
  shows "prob_objective (res_prob res) = Maximize (Dot market_value (psi_of res)) \<and>
         GE (psi_of res) (Num 0) \<in> set (prob_constraints (res_prob res)) \<and>
         length market_value = length global_indices \<and>
         eval \<sigma> (psi_of res) =
           map (\<lambda>g. \<Sum>l<length local_indices. \<Sum>i<length (local_indices ! l).
                  cells (res_A res ! l) ! g ! i * (\<sigma> (Lambda l) ! i - \<sigma> (Delta l) ! i))
             [0..<length global_indices]"
  using returned_problem(1,2,8) [OF assms(1)] eval_psi_of [OF assms] by simp

theorem objective_is_market_value_of_psi_witness:
  "\<not> isl (solve_arbitrage no_solver test_global_indices test_local_indices test_reserves test_fees
             test_market_value) \<and>
   list_all (\<lambda>l. length (test_trade (Delta l)) = length (test_local_indices ! l) \<and>
                  length (test_trade (Lambda l)) = length (test_local_indices ! l))
     [0..<length test_local_indices] \<and>
   prob_objective (res_prob (projr (solve_arbitrage no_solver test_global_indices
     test_local_indices test_reserves test_fees test_market_value))) =
     Maximize (Dot test_market_value (psi_of (projr (solve_arbitrage no_solver
       test_global_indices test_local_indices test_reserves test_fees test_market_value)))) \<and>
   GE (psi_of (projr (solve_arbitrage no_solver test_global_indices test_local_indices
         test_reserves test_fees test_market_value))) (Num 0)
     \<in> set (prob_constraints (res_prob (projr (solve_arbitrage no_solver test_global_indices
           test_local_indices test_reserves test_fees test_market_value)))) \<and>
   length test_market_value = length test_global_indices \<and>
   eval test_trade (psi_of (projr (solve_arbitrage no_solver test_global_indices
     test_local_indices test_reserves test_fees test_market_value))) = [2, 3, 4, 3]"
proof -
  let ?R = "solve_arbitrage no_solver test_global_indices test_local_indices test_reserves
              test_fees test_market_value"
  have ok: "\<not> isl ?R" by (rule test_scenario_builds)
  then have res: "?R = Inr (projr ?R)" by (cases ?R) simp_all
  have lens: "\<forall>l<length test_local_indices.
                length (test_trade (Delta l)) = length (test_local_indices ! l) \<and>
                length (test_trade (Lambda l)) = length (test_local_indices ! l)"
    by (simp add: test_trade_def)
  then have lens': "list_all (\<lambda>l. length (test_trade (Delta l)) = length (test_local_indices ! l) \<and>
                  length (test_trade (Lambda l)) = length (test_local_indices ! l))
     [0..<length test_local_indices]"
    by (simp add: list_all_iff)
  note t = objective_is_market_value_of_psi [OF res lens]
  have n: "length test_global_indices = 4" by (simp add: test_defs)
  have A: "res_A (projr ?R) =
     [\<lparr>nrows = 4, ncols = 4, cells = [[1, 0, 0, 0], [0, 1, 0, 0], [0, 0, 1, 0], [0, 0, 0, 1]]\<rparr>,
      \<lparr>nrows = 4, ncols = 2, cells = [[1, 0], [0, 1], [0, 0], [0, 0]]\<rparr>,
      \<lparr>nrows = 4, ncols = 2, cells = [[0, 0], [1, 0], [0, 1], [0, 0]]\<rparr>,
      \<lparr>nrows = 4, ncols = 2, cells = [[0, 0], [0, 0], [1, 0], [0, 1]]\<rparr>,
      \<lparr>nrows = 4, ncols = 2, cells = [[0, 0], [0, 0], [1, 0], [0, 1]]\<rparr>]"
    using returned_A [OF res] test_build_A unfolding n by simp
  have "map (\<lambda>g. \<Sum>l<length test_local_indices. \<Sum>i<length (test_local_indices ! l).
                  cells (res_A (projr ?R) ! l) ! g ! i *
                  (test_trade (Lambda l) ! i - test_trade (Delta l) ! i))
             [0..<length test_global_indices] = [2, 3, 4, 3]"
    unfolding A
    by (simp add: test_defs test_trade_def eval_nat_numeral upt_rec lessThan_Suc)
  with t have "eval test_trade (psi_of (projr ?R)) = [2, 3, 4, 3]" by simp
  with ok lens' t show ?thesis by (intro conjI) simp_all
qed

section \<open>Claim C4: the incidence matrices\<close>

text \<open>
  Claim C4. Once the mapping loop has run through, the matrix of every pool \<open>l\<close> whose
  listed indices all lie in \<open>[0, n)\<close> has shape \<open>(n, arity l)\<close>, its rows agree with that
  shape, and its column \<open>i\<close> holds a \<open>1\<close> in row \<open>local_indices[l][i]\<close> and \<open>0\<close> in every
  other row. The indices of a pool need not be distinct for this.
\<close>

theorem incidence_one_per_column:
  assumes "build_A n local_indices = Inr A"
    and "l < length local_indices"
    and "\<forall>idx\<in>set (local_indices ! l). 0 \<le> idx \<and> idx < int n"
  shows "nrows (A ! l) = n \<and> ncols (A ! l) = length (local_indices ! l) \<and> well_shaped (A ! l) \<and>
         (\<forall>i<length (local_indices ! l).
            cells (A ! l) ! nat (local_indices ! l ! i) ! i = 1 \<and>
            (\<forall>r<n. r \<noteq> nat (local_indices ! l ! i) \<longrightarrow> cells (A ! l) ! r ! i = 0))"
proof -
  have inc: "incidence n (local_indices ! l) = Inr (A ! l)"
    using build_A_Inr [OF assms(1)] assms(2) by simp
  from incidence_valid [OF assms(3)] inc
  have sh: "well_shaped (A ! l)" "nrows (A ! l) = n" "ncols (A ! l) = length (local_indices ! l)"
    and c: "\<And>r c. r < n \<Longrightarrow> c < length (local_indices ! l) \<Longrightarrow>
                cells (A ! l) ! r ! c = (if int r = local_indices ! l ! c then 1 else 0)"
    by auto
  have "cells (A ! l) ! nat (local_indices ! l ! i) ! i = 1 \<and>
        (\<forall>r<n. r \<noteq> nat (local_indices ! l ! i) \<longrightarrow> cells (A ! l) ! r ! i = 0)"
    if i: "i < length (local_indices ! l)" for i
  proof -
    have v: "0 \<le> local_indices ! l ! i" "local_indices ! l ! i < int n"
      using assms(3) i by auto
    then have "nat (local_indices ! l ! i) < n" by simp
    from c [OF this i] v have one: "cells (A ! l) ! nat (local_indices ! l ! i) ! i = 1" by simp
    have "cells (A ! l) ! r ! i = 0" if "r < n" "r \<noteq> nat (local_indices ! l ! i)" for r
      using c [OF that(1) i] that(2) v by auto
    with one show ?thesis by simp
  qed
  with sh show ?thesis by simp
qed

theorem incidence_one_per_column_witness:
  "build_A 4 test_local_indices =
     Inr [\<lparr>nrows = 4, ncols = 4, cells = [[1, 0, 0, 0], [0, 1, 0, 0], [0, 0, 1, 0], [0, 0, 0, 1]]\<rparr>,
          \<lparr>nrows = 4, ncols = 2, cells = [[1, 0], [0, 1], [0, 0], [0, 0]]\<rparr>,
          \<lparr>nrows = 4, ncols = 2, cells = [[0, 0], [1, 0], [0, 1], [0, 0]]\<rparr>,
          \<lparr>nrows = 4, ncols = 2, cells = [[0, 0], [0, 0], [1, 0], [0, 1]]\<rparr>,
          \<lparr>nrows = 4, ncols = 2, cells = [[0, 0], [0, 0], [1, 0], [0, 1]]\<rparr>] \<and>
   (2::nat) < length test_local_indices \<and>
   list_all (\<lambda>idx. 0 \<le> idx \<and> idx < 4) (test_local_indices ! 2) \<and>
   well_shaped \<lparr>nrows = 4, ncols = 2, cells = [[0, 0], [1, 0], [0, 1], [0, 0]]\<rparr> \<and>
   cells \<lparr>nrows = 4, ncols = 2, cells = [[0, 0], [1, 0], [0, 1], [0, 0]]\<rparr> ! 1 ! 0 = 1 \<and>
   cells \<lparr>nrows = 4, ncols = 2, cells = [[0, 0], [1, 0], [0, 1], [0, 0]]\<rparr> ! 2 ! 1 = 1 \<and>
   cells \<lparr>nrows = 4, ncols = 2, cells = [[0, 0], [1, 0], [0, 1], [0, 0]]\<rparr> ! 3 ! 1 = 0"
proof -
  have v: "\<forall>idx\<in>set (test_local_indices ! 2). 0 \<le> idx \<and> idx < int 4"
    by (simp add: test_defs)
  have l: "(2::nat) < length test_local_indices" by (simp add: test_defs)
  from incidence_one_per_column [OF test_build_A l v] l test_build_A show ?thesis
    by (simp add: test_defs)
qed

section \<open>Claim C5: indices out of range\<close>




section \<open>Claim C6: configuration errors\<close>




section \<open>Claim C7: the constant-sum pool\<close>

text \<open>
  Claim C7. The constant-sum pool is the pool at index \<open>4\<close>. In a call that returns, the
  constraints that are about this pool alone are exactly two, in this order: the sum of
  its post-trade reserves is at least the sum of its reserves, and its post-trade
  reserves are non-negative. Neither is a geometric-mean constraint.
\<close>

theorem constant_sum_pool_constraints:
  assumes "solve_arbitrage solve global_indices local_indices reserves fees market_value = Inr res"
  shows "filter (pool_constraint 4) (prob_constraints (res_prob res)) =
           [ GE (Sum (pool_post_trade local_indices reserves fees 4)) (Sum (Vec (reserves ! 4))),
             GE (pool_post_trade local_indices reserves fees 4) (Num 0) ]"
proof -
  note p = returned_problem [OF assms]
  have "Delta 0 \<in> set (vars (psi_of res))" using p(3,4) by auto
  then have "\<not> pool_constraint 4 (GE (psi_of res) (Num 0))"
    by (force simp: pool_constraint_def list_all_iff)
  then show ?thesis
    by (simp add: p(1) pool_constraint_def vars_pool_post_trade)
qed

theorem constant_sum_pool_constraints_witness:
  "\<not> isl (solve_arbitrage no_solver test_global_indices test_local_indices test_reserves test_fees
             test_market_value) \<and>
   filter (pool_constraint 4) (prob_constraints (res_prob (projr
     (solve_arbitrage no_solver test_global_indices test_local_indices test_reserves test_fees
        test_market_value)))) =
     [ GE (Sum (Sub (Add (Vec [10, 10]) (Scale (999 / 1000) (Var (Variable (Delta 4) 2))))
                    (Var (Variable (Lambda 4) 2))))
          (Sum (Vec [10, 10])),
       GE (Sub (Add (Vec [10, 10]) (Scale (999 / 1000) (Var (Variable (Delta 4) 2))))
               (Var (Variable (Lambda 4) 2)))
          (Num 0) ]"
proof -
  let ?R = "solve_arbitrage no_solver test_global_indices test_local_indices test_reserves
              test_fees test_market_value"
  have ok: "\<not> isl ?R" by (rule test_scenario_builds)
  then have res: "?R = Inr (projr ?R)" by (cases ?R) simp_all
  have "pool_post_trade test_local_indices test_reserves test_fees 4 =
          Sub (Add (Vec [10, 10]) (Scale (999 / 1000) (Var (Variable (Delta 4) 2))))
              (Var (Variable (Lambda 4) 2))"
    by (simp add: pool_post_trade_def post_trade_def test_defs)
  moreover have "test_reserves ! 4 = [10, 10]" by (simp add: test_defs)
  ultimately show ?thesis
    using ok constant_sum_pool_constraints [OF res] by (intro conjI) simp_all
qed

section \<open>Claim C8: what a call returns\<close>

text \<open>
  Claim C8. A call that returns hands back the problem with what the solver left in it,
  one deposit variable and one withdrawal variable per pool, each of the pool's arity,
  and one incidence matrix per pool: of shape \<open>(n, arity)\<close>, with rows that agree with
  the shape, and whose column \<open>i\<close> holds a \<open>1\<close> in the row that the pool's index \<open>i\<close>
  stands for and \<open>0\<close> in every other row.
\<close>

theorem returns_one_entry_per_pool:
  assumes "solve_arbitrage solve global_indices local_indices reserves fees market_value = Inr res"
  shows "prob_solved (res_prob res) =
           solve (prob_objective (res_prob res)) (prob_constraints (res_prob res)) \<and>
         length (res_deltas res) = length local_indices \<and>
         length (res_lambdas res) = length local_indices \<and>
         length (res_A res) = length local_indices \<and>
         (\<forall>l<length local_indices.
            res_deltas res ! l = Variable (Delta l) (length (local_indices ! l)) \<and>
            res_lambdas res ! l = Variable (Lambda l) (length (local_indices ! l)) \<and>
            nrows (res_A res ! l) = length global_indices \<and>
            ncols (res_A res ! l) = length (local_indices ! l) \<and>
            well_shaped (res_A res ! l) \<and>
            (\<forall>i<length (local_indices ! l). \<forall>r<length global_indices.
               cells (res_A res ! l) ! r ! i =
                 (if r = row_of (length global_indices) (local_indices ! l ! i) then 1 else 0)))"
proof -
  let ?n = "length global_indices"
  from assms obtain A deltas lambdas obj cons where
    A: "build_A ?n local_indices = Inr A" and
    D: "variables Delta 0 local_indices = Inr deltas" and
    L: "variables Lambda 0 local_indices = Inr lambdas" and
    res: "res = \<lparr>res_prob = \<lparr>prob_objective = obj, prob_constraints = cons,
                              prob_solved = solve obj cons\<rparr>,
                res_deltas = deltas, res_lambdas = lambdas, res_A = A\<rparr>"
    unfolding solve_arbitrage_Inr by blast
  have mat: "nrows (A ! l) = ?n \<and> ncols (A ! l) = length (local_indices ! l)
                 \<and> well_shaped (A ! l) \<and>
             (\<forall>i<length (local_indices ! l). \<forall>r<?n.
               cells (A ! l) ! r ! i = (if r = row_of ?n (local_indices ! l ! i) then 1 else 0))"
    if l: "l < length local_indices" for l
  proof -
    have inc: "incidence ?n (local_indices ! l) = Inr (A ! l)"
      using build_A_Inr [OF A] l by simp
    have "\<forall>idx\<in>set (local_indices ! l). in_rows ?n idx"
      using build_A_Inr_in_rows [OF A] nth_mem [OF l] by blast
    from incidence_cells [OF this] inc show ?thesis by auto
  qed
  show ?thesis
    using build_A_Inr [OF A] variables_Inr [OF D] variables_Inr [OF L] mat
    by (simp add: res)
qed

theorem returns_one_entry_per_pool_witness:
  "\<not> isl (solve_arbitrage no_solver test_global_indices test_local_indices test_reserves test_fees
             test_market_value) \<and>
   map_sum id (\<lambda>res. (length (res_deltas res), length (res_lambdas res), length (res_A res),
                       res_deltas res ! 2, res_lambdas res ! 2,
                       nrows (res_A res ! 2), ncols (res_A res ! 2),
                       map (\<lambda>r. map (\<lambda>i. cells (res_A res ! 2) ! r ! i) [0, 1]) [0, 1, 2, 3]))
     (solve_arbitrage no_solver test_global_indices test_local_indices test_reserves test_fees
        test_market_value) =
   Inr (5, 5, 5, Variable (Delta 2) 2, Variable (Lambda 2) 2, 4, 2,
        [[0, 0], [1, 0], [0, 1], [0, 0]]) \<and>
   map_sum id res_A
     (solve_arbitrage no_solver test_global_indices test_local_indices test_reserves test_fees
        test_market_value) =
     Inr [\<lparr>nrows = 4, ncols = 4, cells = [[1, 0, 0, 0], [0, 1, 0, 0], [0, 0, 1, 0], [0, 0, 0, 1]]\<rparr>,
          \<lparr>nrows = 4, ncols = 2, cells = [[1, 0], [0, 1], [0, 0], [0, 0]]\<rparr>,
          \<lparr>nrows = 4, ncols = 2, cells = [[0, 0], [1, 0], [0, 1], [0, 0]]\<rparr>,
          \<lparr>nrows = 4, ncols = 2, cells = [[0, 0], [0, 0], [1, 0], [0, 1]]\<rparr>,
          \<lparr>nrows = 4, ncols = 2, cells = [[0, 0], [0, 0], [1, 0], [0, 1]]\<rparr>]"
proof -
  let ?R = "solve_arbitrage no_solver test_global_indices test_local_indices test_reserves
              test_fees test_market_value"
  have ok: "\<not> isl ?R" by (rule test_scenario_builds)
  then obtain res where res: "?R = Inr res" by (cases ?R) auto
  have l: "(2::nat) < length test_local_indices" by (simp add: test_defs)
  note t = returns_one_entry_per_pool [OF res]
  from t l
  have shape: "length (res_deltas res) = 5 \<and> length (res_lambdas res) = 5 \<and>
        length (res_A res) = 5 \<and>
        res_deltas res ! 2 = Variable (Delta 2) 2 \<and> res_lambdas res ! 2 = Variable (Lambda 2) 2 \<and>
        nrows (res_A res ! 2) = 4 \<and> ncols (res_A res ! 2) = 2"
    by (simp add: test_defs)
  from t l have c: "\<forall>i<length (test_local_indices ! 2). \<forall>r<length test_global_indices.
               cells (res_A res ! 2) ! r ! i =
                 (if r = row_of (length test_global_indices) (test_local_indices ! 2 ! i)
                  then 1 else 0)"
    by blast
  have n4: "length test_global_indices = 4" and l2: "test_local_indices ! 2 = [1, 2]"
    by (simp_all add: test_defs)
  have "cells (res_A res ! 2) ! r ! i = (if r = row_of 4 ([1, 2] ! i) then 1 else 0)"
    if "i < 2" "r < 4" for r i
    using c that unfolding n4 l2 by simp
  then have "map (\<lambda>r. map (\<lambda>i. cells (res_A res ! 2) ! r ! i) [0, 1]) [0, 1, 2, 3] =
               [[0, 0], [1, 0], [0, 1], [0, 0]]"
    by (simp add: row_of_def)
  moreover have "map_sum id res_A ?R =
     Inr [\<lparr>nrows = 4, ncols = 4, cells = [[1, 0, 0, 0], [0, 1, 0, 0], [0, 0, 1, 0], [0, 0, 0, 1]]\<rparr>,
          \<lparr>nrows = 4, ncols = 2, cells = [[1, 0], [0, 1], [0, 0], [0, 0]]\<rparr>,
          \<lparr>nrows = 4, ncols = 2, cells = [[0, 0], [1, 0], [0, 1], [0, 0]]\<rparr>,
          \<lparr>nrows = 4, ncols = 2, cells = [[0, 0], [0, 0], [1, 0], [0, 1]]\<rparr>,
          \<lparr>nrows = 4, ncols = 2, cells = [[0, 0], [0, 0], [1, 0], [0, 1]]\<rparr>]"
    by (simp add: build_defs test_defs eval_nat_numeral)
  ultimately show ?thesis using shape ok by (simp add: res)
qed

section \<open>Claim C9: fewer than five pools\<close>




section \<open>Claim C10: the invariant of a pool is fixed by its position\<close>

text \<open>
  Claim C10. In a call that returns, the list of constraints is the same seven entries
  whatever the input: a geometric mean with weights \<open>[4, 3, 2, 1]\<close> on pool \<open>0\<close>, a plain
  geometric mean on each of the pools \<open>1\<close>, \<open>2\<close> and \<open>3\<close>, the sum and the non-negativity
  on pool \<open>4\<close>, and \<^verbatim>\<open>psi >= 0\<close>. The variables of a pool at index \<open>5\<close> or beyond occur
  in no constraint but \<^verbatim>\<open>psi >= 0\<close>.
\<close>

theorem invariant_kind_fixed_by_position:
  assumes "solve_arbitrage solve global_indices local_indices reserves fees market_value = Inr res"
  shows "prob_constraints (res_prob res) =
       [ GE (GeoMean (pool_post_trade local_indices reserves fees 0) (Some [4, 3, 2, 1]))
            (GeoMean (Vec (reserves ! 0)) None),
         GE (GeoMean (pool_post_trade local_indices reserves fees 1) None)
            (GeoMean (Vec (reserves ! 1)) None),
         GE (GeoMean (pool_post_trade local_indices reserves fees 2) None)
            (GeoMean (Vec (reserves ! 2)) None),
         GE (GeoMean (pool_post_trade local_indices reserves fees 3) None)
            (GeoMean (Vec (reserves ! 3)) None),
         GE (Sum (pool_post_trade local_indices reserves fees 4)) (Sum (Vec (reserves ! 4))),
         GE (pool_post_trade local_indices reserves fees 4) (Num 0),
         GE (psi_of res) (Num 0) ] \<and>
     (\<forall>l\<ge>5. filter (mentions l) (prob_constraints (res_prob res)) =
               (if l < length local_indices then [GE (psi_of res) (Num 0)] else []))"
proof -
  note p = returned_problem [OF assms]
  have "filter (mentions l) (prob_constraints (res_prob res)) =
          (if l < length local_indices then [GE (psi_of res) (Num 0)] else [])"
    if "5 \<le> l" for l
  proof -
    have "\<not> mentions l (GE (GeoMean (pool_post_trade local_indices reserves fees k) w) b)"
      if "k < 5" and "vars b = []" for k w b
      using that \<open>5 \<le> l\<close> by (simp add: mentions_def vars_pool_post_trade)
    moreover have "\<not> mentions l (GE (Sum (pool_post_trade local_indices reserves fees 4)) b)"
      if "vars b = []" for b
      using that \<open>5 \<le> l\<close> by (simp add: mentions_def vars_pool_post_trade)
    moreover have "\<not> mentions l (GE (pool_post_trade local_indices reserves fees 4) (Num 0))"
      using \<open>5 \<le> l\<close> by (simp add: mentions_def vars_pool_post_trade)
    ultimately show ?thesis
      by (simp add: p(1) mentions_psi [OF assms])
  qed
  with p(1) show ?thesis by blast
qed

theorem invariant_kind_fixed_by_position_witness:
  "\<not> isl (solve_arbitrage no_solver test_global_indices test_local_indices test_reserves test_fees
             test_market_value) \<and>
   length (prob_constraints (res_prob (projr (solve_arbitrage no_solver test_global_indices
     test_local_indices test_reserves test_fees test_market_value)))) = 7 \<and>
   prob_constraints (res_prob (projr (solve_arbitrage no_solver test_global_indices
     test_local_indices test_reserves test_fees test_market_value))) ! 0 =
     GE (GeoMean (Sub (Add (Vec [4, 4, 4, 4]) (Scale (998 / 1000) (Var (Variable (Delta 0) 4))))
                      (Var (Variable (Lambda 0) 4)))
                 (Some [4, 3, 2, 1]))
        (GeoMean (Vec [4, 4, 4, 4]) None) \<and>
   prob_constraints (res_prob (projr (solve_arbitrage no_solver test_global_indices
     test_local_indices test_reserves test_fees test_market_value))) ! 3 =
     GE (GeoMean (Sub (Add (Vec [40, 50]) (Scale (997 / 1000) (Var (Variable (Delta 3) 2))))
                      (Var (Variable (Lambda 3) 2)))
                 None)
        (GeoMean (Vec [40, 50]) None) \<and>
   filter (mentions 5) (prob_constraints (res_prob (projr (solve_arbitrage no_solver
     test_global_indices test_local_indices test_reserves test_fees test_market_value)))) = [] \<and>
   \<not> isl (solve_arbitrage no_solver test_global_indices (test_local_indices @ [[0, 3]])
            (test_reserves @ [[5, 5]]) (test_fees @ [1]) test_market_value) \<and>
   filter (mentions 5) (prob_constraints (res_prob (projr (solve_arbitrage no_solver
     test_global_indices (test_local_indices @ [[0, 3]]) (test_reserves @ [[5, 5]])
     (test_fees @ [1]) test_market_value)))) =
     [GE (psi_of (projr (solve_arbitrage no_solver test_global_indices
        (test_local_indices @ [[0, 3]]) (test_reserves @ [[5, 5]]) (test_fees @ [1])
        test_market_value))) (Num 0)]"
proof -
  let ?R = "solve_arbitrage no_solver test_global_indices test_local_indices test_reserves
              test_fees test_market_value"
  have ok: "\<not> isl ?R" by (rule test_scenario_builds)
  then have res: "?R = Inr (projr ?R)" by (cases ?R) simp_all
  note t = invariant_kind_fixed_by_position [OF res]
  have c: "prob_constraints (res_prob (projr ?R)) =
       [ GE (GeoMean (pool_post_trade test_local_indices test_reserves test_fees 0) (Some [4, 3, 2, 1]))
            (GeoMean (Vec (test_reserves ! 0)) None),
         GE (GeoMean (pool_post_trade test_local_indices test_reserves test_fees 1) None)
            (GeoMean (Vec (test_reserves ! 1)) None),
         GE (GeoMean (pool_post_trade test_local_indices test_reserves test_fees 2) None)
            (GeoMean (Vec (test_reserves ! 2)) None),
         GE (GeoMean (pool_post_trade test_local_indices test_reserves test_fees 3) None)
            (GeoMean (Vec (test_reserves ! 3)) None),
         GE (Sum (pool_post_trade test_local_indices test_reserves test_fees 4))
            (Sum (Vec (test_reserves ! 4))),
         GE (pool_post_trade test_local_indices test_reserves test_fees 4) (Num 0),
         GE (psi_of (projr ?R)) (Num 0) ]"
    using t by (rule conjunct1)
  have f: "filter (mentions 5) (prob_constraints (res_prob (projr ?R))) =
             (if 5 < length test_local_indices then [GE (psi_of (projr ?R)) (Num 0)] else [])"
    using t by blast
  have five: "filter (mentions 5) (prob_constraints (res_prob (projr ?R))) = []"
    unfolding f by (simp add: test_defs)
  have zero: "prob_constraints (res_prob (projr ?R)) ! 0 =
     GE (GeoMean (Sub (Add (Vec [4, 4, 4, 4]) (Scale (998 / 1000) (Var (Variable (Delta 0) 4))))
                      (Var (Variable (Lambda 0) 4)))
                 (Some [4, 3, 2, 1]))
        (GeoMean (Vec [4, 4, 4, 4]) None)"
    unfolding c by (simp add: pool_post_trade_def post_trade_def test_defs)
  have three: "prob_constraints (res_prob (projr ?R)) ! 3 =
     GE (GeoMean (Sub (Add (Vec [40, 50]) (Scale (997 / 1000) (Var (Variable (Delta 3) 2))))
                      (Var (Variable (Lambda 3) 2)))
                 None)
        (GeoMean (Vec [40, 50]) None)"
    unfolding c by (simp add: pool_post_trade_def post_trade_def test_defs)
  have len: "length (prob_constraints (res_prob (projr ?R))) = 7"
    unfolding c by simp
  let ?S = "solve_arbitrage no_solver test_global_indices (test_local_indices @ [[0, 3]])
              (test_reserves @ [[5, 5]]) (test_fees @ [1]) test_market_value"
  have ok6: "\<not> isl ?S" by (simp add: build_defs test_defs)
  then have res6: "?S = Inr (projr ?S)" by (cases ?S) simp_all
  have "filter (mentions 5) (prob_constraints (res_prob (projr ?S))) =
          (if 5 < length (test_local_indices @ [[0, 3]]) then [GE (psi_of (projr ?S)) (Num 0)]
           else [])"
    using invariant_kind_fixed_by_position [OF res6] by blast
  then have six: "filter (mentions 5) (prob_constraints (res_prob (projr ?S))) =
                    [GE (psi_of (projr ?S)) (Num 0)]"
    by (simp add: test_defs)
  from ok len zero three five ok6 six show ?thesis by (intro conjI)
qed

end
